theory Spec2Isabelle
  imports Main "HOL-Library.Word"
begin

section \<open>Errors\<close>

text \<open>
  The Go code reports failures in three ways: a returned \<open>error\<close> value
  (\<open>shared.BadRequestError\<close>, \<open>shared.InternalServiceError\<close>, an error of the
  SQL driver, \<open>fmt.Errorf\<close>), and a \<open>panic\<close>. All of them are values here, and a
  function that can fail returns \<open>error + 'a\<close>. A message keeps the format string
  and its arguments as they are handed to \<open>fmt.Sprintf\<close>, so that no rendering of
  numbers or of nested errors has to be invented.
\<close>

datatype error =
    ErrNoRows
  | DriverError string
  | Errorf string error
  | BadRequestError message
  | InternalServiceError message
  | Panic message
and message =
    Text string
  | Sprintf string "int list"
  | SprintfErr string error
  | ErrorText error

section \<open>Version history (package persistence)\<close>

subsection \<open>Items and the store they live in\<close>

text \<open>
  A \<open>*VersionHistoryItem\<close> is a pointer to a struct with two \<open>int64\<close> fields. The
  fields are only compared, never computed with, so they are modelled as \<open>int\<close>.
  \<open>AddOrUpdateItem\<close> writes through such a pointer, so the item objects live in an
  explicit store: a list of items, an address being an index into it. Allocation appends
  to the store, so a fresh address is \<open>length s\<close>. Every address handed to a function
  is taken to point to an allocated item (the theorems assume it).
\<close>

type_synonym byte = "8 word"

record VersionHistoryItem =
  eventID :: int
  version :: int

type_synonym addr = nat
type_synonym store = "VersionHistoryItem list"

record VersionHistory =
  branchToken :: "byte list"
  items :: "addr list"

record VersionHistories =
  currentVersionHistoryIndex :: int
  histories :: "VersionHistory list"

text \<open>
  Modelled from the spec: the constants of package \<open>common\<close> are not part of the
  sources at hand. The spec gives \<open>FirstEventID = 1\<close>; \<open>EmptyVersion\<close> is only called
  a sentinel there, so every function that needs it takes it as its first parameter.
\<close>

definition FirstEventID :: int where
  "FirstEventID = 1"

definition NewVersionHistoryItem :: "int \<Rightarrow> store \<Rightarrow> int \<Rightarrow> int \<Rightarrow> error + (store \<times> addr)" where
  "NewVersionHistoryItem EmptyVersion s inputEventID inputVersion =
     (if inputEventID < 0 \<or> (inputVersion < 0 \<and> inputVersion \<noteq> EmptyVersion)
      then Inl (Panic (Sprintf ''invalid version history item event ID: %v, version: %v''
                         [inputEventID, inputVersion]))
      else Inr (s @ [\<lparr>eventID = inputEventID, version = inputVersion\<rparr>], length s))"

definition Duplicate :: "int \<Rightarrow> store \<Rightarrow> addr \<Rightarrow> error + (store \<times> addr)" where
  "Duplicate EmptyVersion s item =
     NewVersionHistoryItem EmptyVersion s (eventID (s ! item)) (version (s ! item))"

definition GetEventID :: "store \<Rightarrow> addr \<Rightarrow> int" where
  "GetEventID s item = eventID (s ! item)"

definition GetVersion :: "store \<Rightarrow> addr \<Rightarrow> int" where
  "GetVersion s item = version (s ! item)"

definition Equals :: "store \<Rightarrow> addr \<Rightarrow> addr \<Rightarrow> bool" where
  "Equals s item input \<longleftrightarrow>
     version (s ! item) = version (s ! input) \<and> eventID (s ! item) = eventID (s ! input)"

subsection \<open>VersionHistory\<close>

text \<open>
  \<open>AddOrUpdateItem\<close> returns the store and the history as the call leaves them. An
  error return happens before anything is written.
\<close>

definition AddOrUpdateItem ::
  "int \<Rightarrow> store \<Rightarrow> VersionHistory \<Rightarrow> addr \<Rightarrow> error + (store \<times> VersionHistory)" where
  "AddOrUpdateItem EmptyVersion s v item =
     (if length (items v) = 0 then
        (case Duplicate EmptyVersion s item of
           Inl e \<Rightarrow> Inl e
         | Inr (s', d) \<Rightarrow> Inr (s', v\<lparr>items := [d]\<rparr>))
      else
        (let lastItem = items v ! (length (items v) - 1) in
         if version (s ! item) < version (s ! lastItem) then
           Inl (BadRequestError (Sprintf
             ''cannot update version history with a lower version %v. Last version: %v''
             [version (s ! item), version (s ! lastItem)]))
         else if eventID (s ! item) \<le> eventID (s ! lastItem) then
           Inl (BadRequestError (Sprintf
             ''cannot add version history with a lower event id %v. Last event id: %v''
             [eventID (s ! item), eventID (s ! lastItem)]))
         else if version (s ! item) > version (s ! lastItem) then
           (case Duplicate EmptyVersion s item of
              Inl e \<Rightarrow> Inl e
            | Inr (s', d) \<Rightarrow> Inr (s', v\<lparr>items := items v @ [d]\<rparr>))
         else
           Inr (s[lastItem := (s ! lastItem)\<lparr>eventID := eventID (s ! item)\<rparr>], v)))"

text \<open>
  \<open>NewVersionHistory\<close>: the token is copied, and every input item is duplicated and
  handed to \<open>AddOrUpdateItem\<close> (which duplicates it once more when it appends). An
  error of \<open>AddOrUpdateItem\<close> becomes a panic.
\<close>

fun NewVersionHistory_loop ::
  "int \<Rightarrow> store \<Rightarrow> VersionHistory \<Rightarrow> addr list \<Rightarrow> error + (store \<times> VersionHistory)" where
  "NewVersionHistory_loop EmptyVersion s versionHistory [] = Inr (s, versionHistory)"
| "NewVersionHistory_loop EmptyVersion s versionHistory (item # rest) =
     (case Duplicate EmptyVersion s item of
        Inl e \<Rightarrow> Inl e
      | Inr (s1, d) \<Rightarrow>
          (case AddOrUpdateItem EmptyVersion s1 versionHistory d of
             Inl (Panic m) \<Rightarrow> Inl (Panic m)
           | Inl err \<Rightarrow> Inl (Panic (SprintfErr ''unable to initialize version history: %v'' err))
           | Inr (s2, versionHistory') \<Rightarrow>
               NewVersionHistory_loop EmptyVersion s2 versionHistory' rest))"

definition NewVersionHistory ::
  "int \<Rightarrow> store \<Rightarrow> byte list \<Rightarrow> addr list \<Rightarrow> error + (store \<times> VersionHistory)" where
  "NewVersionHistory EmptyVersion s inputToken inputItems =
     NewVersionHistory_loop EmptyVersion s \<lparr>branchToken = inputToken, items = []\<rparr> inputItems"

definition Duplicate_VersionHistory ::
  "int \<Rightarrow> store \<Rightarrow> VersionHistory \<Rightarrow> error + (store \<times> VersionHistory)" where
  "Duplicate_VersionHistory EmptyVersion s v =
     NewVersionHistory EmptyVersion s (branchToken v) (items v)"

definition notFoundErr :: error where
  "notFoundErr = BadRequestError (Text ''version history does not contains the LCA item.'')"

fun DuplicateUntilLCAItem_loop ::
  "int \<Rightarrow> store \<Rightarrow> VersionHistory \<Rightarrow> addr \<Rightarrow> addr list \<Rightarrow> error + (store \<times> VersionHistory)" where
  "DuplicateUntilLCAItem_loop EmptyVersion s versionHistory lcaItem [] = Inl notFoundErr"
| "DuplicateUntilLCAItem_loop EmptyVersion s versionHistory lcaItem (item # rest) =
     (if version (s ! item) < version (s ! lcaItem) then
        (case AddOrUpdateItem EmptyVersion s versionHistory item of
           Inl err \<Rightarrow> Inl err
         | Inr (s', versionHistory') \<Rightarrow>
             DuplicateUntilLCAItem_loop EmptyVersion s' versionHistory' lcaItem rest)
      else if version (s ! item) = version (s ! lcaItem) then
        (if eventID (s ! lcaItem) > eventID (s ! item) then Inl notFoundErr
         else
           (case AddOrUpdateItem EmptyVersion s versionHistory lcaItem of
              Inl err \<Rightarrow> Inl err
            | Inr r \<Rightarrow> Inr r))
      else Inl notFoundErr)"

definition DuplicateUntilLCAItem ::
  "int \<Rightarrow> store \<Rightarrow> VersionHistory \<Rightarrow> addr \<Rightarrow> error + (store \<times> VersionHistory)" where
  "DuplicateUntilLCAItem EmptyVersion s v lcaItem =
     (case NewVersionHistory EmptyVersion s [] [] of
        Inl e \<Rightarrow> Inl e
      | Inr (s0, versionHistory) \<Rightarrow>
          DuplicateUntilLCAItem_loop EmptyVersion s0 versionHistory lcaItem (items v))"

definition SetBranchToken :: "VersionHistory \<Rightarrow> byte list \<Rightarrow> VersionHistory" where
  "SetBranchToken v inputToken = v\<lparr>branchToken := inputToken\<rparr>"

definition GetBranchToken :: "VersionHistory \<Rightarrow> byte list" where
  "GetBranchToken v = branchToken v"

text \<open>
  \<open>ContainsItem\<close> and \<open>FindLCAItem\<close> only read the histories.
  \<open>FindLCAItem\<close> walks both histories from their last items with two indices that may
  reach \<open>-1\<close>, and returns a fresh copy of the item it settles on.
\<close>

fun ContainsItem_loop :: "store \<Rightarrow> addr \<Rightarrow> int \<Rightarrow> addr list \<Rightarrow> bool" where
  "ContainsItem_loop s item prevEventID [] = False"
| "ContainsItem_loop s item prevEventID (currentItem # rest) =
     (if GetVersion s item = GetVersion s currentItem then
        (if GetEventID s item = FirstEventID - 1 \<and> GetEventID s item \<le> GetEventID s currentItem
         then True
         else if prevEventID < GetEventID s item \<and> GetEventID s item \<le> GetEventID s currentItem
         then True
         else ContainsItem_loop s item (GetEventID s currentItem) rest)
      else if GetVersion s item < GetVersion s currentItem then False
      else ContainsItem_loop s item (GetEventID s currentItem) rest)"

definition ContainsItem :: "store \<Rightarrow> VersionHistory \<Rightarrow> addr \<Rightarrow> bool" where
  "ContainsItem s v item = ContainsItem_loop s item (FirstEventID - 1) (items v)"

function FindLCAItem_loop ::
  "int \<Rightarrow> store \<Rightarrow> VersionHistory \<Rightarrow> VersionHistory \<Rightarrow> int \<Rightarrow> int \<Rightarrow> error + (store \<times> addr)" where
  "FindLCAItem_loop EmptyVersion s v remote localIndex remoteIndex =
     (if localIndex \<ge> 0 \<and> remoteIndex \<ge> 0 then
        (if version (s ! (items v ! nat localIndex)) = version (s ! (items remote ! nat remoteIndex)) then
           (if eventID (s ! (items v ! nat localIndex)) > eventID (s ! (items remote ! nat remoteIndex))
            then Duplicate EmptyVersion s (items remote ! nat remoteIndex)
            else Duplicate EmptyVersion s (items v ! nat localIndex))
         else if version (s ! (items v ! nat localIndex)) > version (s ! (items remote ! nat remoteIndex)) then
           FindLCAItem_loop EmptyVersion s v remote (localIndex - 1) remoteIndex
         else
           FindLCAItem_loop EmptyVersion s v remote localIndex (remoteIndex - 1))
      else Inl (BadRequestError (Text ''version history is malformed. No joint point found.'')))"
  by pat_completeness auto
termination
  by (relation "measure (\<lambda>(ev, s, v, remote, l, r). nat (l + 1) + nat (r + 1))") auto

declare FindLCAItem_loop.simps [simp del]

definition FindLCAItem ::
  "int \<Rightarrow> store \<Rightarrow> VersionHistory \<Rightarrow> VersionHistory \<Rightarrow> error + (store \<times> addr)" where
  "FindLCAItem EmptyVersion s v remote =
     FindLCAItem_loop EmptyVersion s v remote
       (int (length (items v)) - 1) (int (length (items remote)) - 1)"

definition GetFirstItem :: "int \<Rightarrow> store \<Rightarrow> VersionHistory \<Rightarrow> error + (store \<times> addr)" where
  "GetFirstItem EmptyVersion s v =
     (if length (items v) = 0 then Inl (BadRequestError (Text ''version history is empty.''))
      else Duplicate EmptyVersion s (items v ! 0))"

definition GetLastItem :: "int \<Rightarrow> store \<Rightarrow> VersionHistory \<Rightarrow> error + (store \<times> addr)" where
  "GetLastItem EmptyVersion s v =
     (if length (items v) = 0 then Inl (BadRequestError (Text ''version history is empty.''))
      else Duplicate EmptyVersion s (items v ! (length (items v) - 1)))"

text \<open>
  \<open>VersionHistory.Equals\<close>: the tokens are compared bytewise, then the lengths, then
  the items index by index.
\<close>

definition Equals_VersionHistory :: "store \<Rightarrow> VersionHistory \<Rightarrow> VersionHistory \<Rightarrow> bool" where
  "Equals_VersionHistory s v input =
     (if branchToken v \<noteq> branchToken input then False
      else if length (items v) \<noteq> length (items input) then False
      else list_all (\<lambda>(localItem, incomingItem). Equals s localItem incomingItem)
             (zip (items v) (items input)))"

subsection \<open>What a history means: its item values\<close>

text \<open>
  The values a history holds in a store, the validity of an item (what
  \<open>NewVersionHistoryItem\<close> accepts), and the invariant of the data model: a history's
  items are allocated, valid, and strictly increasing in both event ID and version.
\<close>

definition item_values :: "store \<Rightarrow> VersionHistory \<Rightarrow> VersionHistoryItem list" where
  "item_values s v = map (\<lambda>p. s ! p) (items v)"

definition valid_item :: "int \<Rightarrow> VersionHistoryItem \<Rightarrow> bool" where
  "valid_item EmptyVersion x \<longleftrightarrow>
     \<not> (eventID x < 0 \<or> (version x < 0 \<and> version x \<noteq> EmptyVersion))"

definition item_less :: "VersionHistoryItem \<Rightarrow> VersionHistoryItem \<Rightarrow> bool" where
  "item_less x y \<longleftrightarrow> eventID x < eventID y \<and> version x < version y"

definition strictly_increasing :: "VersionHistoryItem list \<Rightarrow> bool" where
  "strictly_increasing xs = sorted_wrt item_less xs"

definition allocated :: "store \<Rightarrow> VersionHistory \<Rightarrow> bool" where
  "allocated s v \<longleftrightarrow> list_all (\<lambda>p. p < length s) (items v) \<and> distinct (items v)"

text \<open>
  A history whose items are all allocated at or after address \<open>n\<close>: it shares no
  item with anything that was allocated before \<open>n\<close>.
\<close>

definition fresh_items :: "nat \<Rightarrow> store \<Rightarrow> VersionHistory \<Rightarrow> bool" where
  "fresh_items n s v \<longleftrightarrow> list_all (\<lambda>p. n \<le> p \<and> p < length s) (items v)"

text \<open>
  The invariant of a \<open>VersionHistory\<close> in the data model: its items are allocated,
  each is a valid item, and they are strictly increasing in event ID and in version.
\<close>

definition valid_VersionHistory :: "int \<Rightarrow> store \<Rightarrow> VersionHistory \<Rightarrow> bool" where
  "valid_VersionHistory EmptyVersion s v \<longleftrightarrow>
     allocated s v \<and> list_all (valid_item EmptyVersion) (item_values s v)
     \<and> strictly_increasing (item_values s v)"

text \<open>
  The joint point of two histories: an item of each, of one version, that version being
  the highest one the two histories share.
\<close>

definition joint_point :: "store \<Rightarrow> VersionHistory \<Rightarrow> VersionHistory \<Rightarrow> addr \<Rightarrow> addr \<Rightarrow> bool" where
  "joint_point s a b p q \<longleftrightarrow>
     p \<in> set (items a) \<and> q \<in> set (items b) \<and> version (s ! p) = version (s ! q)
     \<and> (\<forall>p'\<in>set (items a). \<forall>q'\<in>set (items b).
          version (s ! p') = version (s ! q') \<longrightarrow> version (s ! p') \<le> version (s ! p))"

subsection \<open>VersionHistories\<close>

text \<open>
  \<open>GetVersionHistory\<close> checks the index and then indexes the slice. The second test
  below is the bounds check of the Go runtime on \<open>h.histories[branchIndex]\<close>, which
  panics.
\<close>

definition GetVersionHistory :: "VersionHistories \<Rightarrow> int \<Rightarrow> error + VersionHistory" where
  "GetVersionHistory h branchIndex =
     (if branchIndex < 0 \<or> branchIndex > int (length (histories h)) then
        Inl (BadRequestError (Text ''invalid branch index.''))
      else if branchIndex < int (length (histories h)) then
        Inr (histories h ! nat branchIndex)
      else Inl (Panic (Text ''runtime error: index out of range'')))"

definition NewVersionHistories :: "VersionHistory option \<Rightarrow> error + VersionHistories" where
  "NewVersionHistories versionHistory =
     (case versionHistory of
        None \<Rightarrow> Inl (Panic (Text ''version history cannot be null''))
      | Some vh \<Rightarrow> Inr \<lparr>currentVersionHistoryIndex = 0, histories = [vh]\<rparr>)"

text \<open>
  \<open>AddVersionHistory\<close> returns the store and the histories as the call leaves them,
  and what the Go function returns: an error, or \<open>currentBranchChanged\<close> and the new
  index. The two error returns that follow the append leave the histories extended.
\<close>

definition AddVersionHistory ::
  "int \<Rightarrow> store \<Rightarrow> VersionHistories \<Rightarrow> VersionHistory option \<Rightarrow>
     store \<times> VersionHistories \<times> (error + (bool \<times> int))" where
  "AddVersionHistory EmptyVersion s h v' =
     (case v' of
        None \<Rightarrow> (s, h, Inl (BadRequestError (Text ''version histories is null.'')))
      | Some v \<Rightarrow>
     (case GetFirstItem EmptyVersion s v of
        Inl err \<Rightarrow> (s, h, Inl err)
      | Inr (s1, incomingFirstItem) \<Rightarrow>
     (case GetVersionHistory h (currentVersionHistoryIndex h) of
        Inl err \<Rightarrow> (s1, h, Inl err)
      | Inr currentVersionHistory \<Rightarrow>
     (case GetFirstItem EmptyVersion s1 currentVersionHistory of
        Inl err \<Rightarrow> (s1, h, Inl err)
      | Inr (s2, currentFirstItem) \<Rightarrow>
     (if version (s2 ! incomingFirstItem) \<noteq> version (s2 ! currentFirstItem) then
        (s2, h, Inl (BadRequestError (Text ''version history first item does not match.'')))
      else
     (case Duplicate_VersionHistory EmptyVersion s2 v of
        Inl err \<Rightarrow> (s2, h, Inl err)
      | Inr (s3, newVersionHistory) \<Rightarrow>
     (let h1 = h\<lparr>histories := histories h @ [newVersionHistory]\<rparr>;
          newVersionHistoryIndex = int (length (histories h1)) - 1 in
     (case GetLastItem EmptyVersion s3 newVersionHistory of
        Inl err \<Rightarrow> (s3, h1, Inl err)
      | Inr (s4, newLastItem) \<Rightarrow>
     (case GetLastItem EmptyVersion s4 currentVersionHistory of
        Inl err \<Rightarrow> (s4, h1, Inl err)
      | Inr (s5, currentLastItem) \<Rightarrow>
     (if version (s5 ! newLastItem) > version (s5 ! currentLastItem) then
        (s5, h1\<lparr>currentVersionHistoryIndex := newVersionHistoryIndex\<rparr>,
         Inr (True, newVersionHistoryIndex))
      else (s5, h1, Inr (False, newVersionHistoryIndex))))))))))))"

definition SetCurrentVersionHistoryIndex :: "VersionHistories \<Rightarrow> int \<Rightarrow> error + VersionHistories" where
  "SetCurrentVersionHistoryIndex h index =
     (if index < 0 \<or> index \<ge> int (length (histories h)) then
        Inl (BadRequestError (Text ''invalid current branch index.''))
      else Inr (h\<lparr>currentVersionHistoryIndex := index\<rparr>))"

subsection \<open>The wire form\<close>

text \<open>
  Modelled from the spec: the thrift types of package \<open>shared\<close> are not part of the
  sources at hand. The spec gives the wire format: an item is \<open>{eventID: int64, version:
  int64}\<close>, a history \<open>{branchToken: bytes, items: list}\<close>, the histories
  \<open>{currentVersionHistoryIndex: int32, histories: list}\<close>. Scalar fields are optional
  (pointers in Go) and their getters return 0 when the field is absent; list elements and
  the inputs of the decoders are pointers, \<open>None\<close> being \<open>nil\<close>.
\<close>

record thrift_VersionHistoryItem =
  EventID :: "int option"
  Version :: "int option"

record thrift_VersionHistory =
  BranchToken :: "byte list"
  Items :: "thrift_VersionHistoryItem option list"

record thrift_VersionHistories =
  CurrentVersionHistoryIndex :: "32 word option"
  Histories :: "thrift_VersionHistory option list"

definition thrift_GetEventID :: "thrift_VersionHistoryItem \<Rightarrow> int" where
  "thrift_GetEventID input = (case EventID input of None \<Rightarrow> 0 | Some x \<Rightarrow> x)"

definition thrift_GetVersion :: "thrift_VersionHistoryItem \<Rightarrow> int" where
  "thrift_GetVersion input = (case Version input of None \<Rightarrow> 0 | Some x \<Rightarrow> x)"

definition thrift_GetCurrentVersionHistoryIndex :: "thrift_VersionHistories \<Rightarrow> 32 word" where
  "thrift_GetCurrentVersionHistoryIndex input =
     (case CurrentVersionHistoryIndex input of None \<Rightarrow> 0 | Some x \<Rightarrow> x)"

definition ToThrift :: "store \<Rightarrow> addr \<Rightarrow> thrift_VersionHistoryItem" where
  "ToThrift s item = \<lparr>EventID = Some (eventID (s ! item)), Version = Some (version (s ! item))\<rparr>"

definition ToThrift_VersionHistory :: "store \<Rightarrow> VersionHistory \<Rightarrow> thrift_VersionHistory" where
  "ToThrift_VersionHistory s v =
     \<lparr>BranchToken = branchToken v, Items = map (\<lambda>item. Some (ToThrift s item)) (items v)\<rparr>"

text \<open>
  The current index is a Go \<open>int\<close>; \<open>int32(...)\<close> keeps its low 32 bits, and
  \<open>int(...)\<close> reads them back as a signed value.
\<close>

definition ToThrift_VersionHistories :: "store \<Rightarrow> VersionHistories \<Rightarrow> thrift_VersionHistories" where
  "ToThrift_VersionHistories s h =
     \<lparr>CurrentVersionHistoryIndex = Some (word_of_int (currentVersionHistoryIndex h)),
      Histories = map (\<lambda>history. Some (ToThrift_VersionHistory s history)) (histories h)\<rparr>"

definition NewVersionHistoryItemFromThrift ::
  "int \<Rightarrow> store \<Rightarrow> thrift_VersionHistoryItem option \<Rightarrow> error + (store \<times> addr)" where
  "NewVersionHistoryItemFromThrift EmptyVersion s input' =
     (case input' of
        None \<Rightarrow> Inl (Panic (Text ''version history item is null''))
      | Some input \<Rightarrow>
          NewVersionHistoryItem EmptyVersion s (thrift_GetEventID input) (thrift_GetVersion input))"

fun NewVersionHistoryFromThrift_items ::
  "int \<Rightarrow> store \<Rightarrow> addr list \<Rightarrow> thrift_VersionHistoryItem option list \<Rightarrow>
     error + (store \<times> addr list)" where
  "NewVersionHistoryFromThrift_items EmptyVersion s acc [] = Inr (s, acc)"
| "NewVersionHistoryFromThrift_items EmptyVersion s acc (item # rest) =
     (case NewVersionHistoryItemFromThrift EmptyVersion s item of
        Inl e \<Rightarrow> Inl e
      | Inr (s', p) \<Rightarrow> NewVersionHistoryFromThrift_items EmptyVersion s' (acc @ [p]) rest)"

definition NewVersionHistoryFromThrift ::
  "int \<Rightarrow> store \<Rightarrow> thrift_VersionHistory option \<Rightarrow> error + (store \<times> VersionHistory)" where
  "NewVersionHistoryFromThrift EmptyVersion s input' =
     (case input' of
        None \<Rightarrow> Inl (Panic (Text ''version history is null''))
      | Some input \<Rightarrow>
          (case NewVersionHistoryFromThrift_items EmptyVersion s [] (Items input) of
             Inl e \<Rightarrow> Inl e
           | Inr (s', inputItems) \<Rightarrow>
               NewVersionHistory EmptyVersion s' (BranchToken input) inputItems))"

fun NewVersionHistoriesFromThrift_loop ::
  "int \<Rightarrow> store \<Rightarrow> VersionHistories \<Rightarrow> thrift_VersionHistory option list \<Rightarrow>
     error + (store \<times> VersionHistories)" where
  "NewVersionHistoriesFromThrift_loop EmptyVersion s versionHistories [] =
     Inr (s, versionHistories)"
| "NewVersionHistoriesFromThrift_loop EmptyVersion s versionHistories (history # rest) =
     (case NewVersionHistoryFromThrift EmptyVersion s history of
        Inl e \<Rightarrow> Inl e
      | Inr (s1, vh) \<Rightarrow>
          (case AddVersionHistory EmptyVersion s1 versionHistories (Some vh) of
             (s2, versionHistories', Inl (Panic m)) \<Rightarrow> Inl (Panic m)
           | (s2, versionHistories', Inl err) \<Rightarrow>
               Inl (Panic (SprintfErr ''unable to initialize version histories: %v'' err))
           | (s2, versionHistories', Inr r) \<Rightarrow>
               NewVersionHistoriesFromThrift_loop EmptyVersion s2 versionHistories' rest))"

definition NewVersionHistoriesFromThrift ::
  "int \<Rightarrow> store \<Rightarrow> thrift_VersionHistories option \<Rightarrow> error + (store \<times> VersionHistories)" where
  "NewVersionHistoriesFromThrift EmptyVersion s input' =
     (case input' of
        None \<Rightarrow> Inl (Panic (Text ''version histories is null''))
      | Some input \<Rightarrow>
          if length (Histories input) = 0 then
            Inl (Panic (Text ''version histories cannot have empty''))
          else
            (let currentVersionHistoryIndex' = sint (thrift_GetCurrentVersionHistoryIndex input) in
             case NewVersionHistoryFromThrift EmptyVersion s (Histories input ! 0) of
               Inl e \<Rightarrow> Inl e
             | Inr (s1, vh) \<Rightarrow>
                 (case NewVersionHistories (Some vh) of
                    Inl e \<Rightarrow> Inl e
                  | Inr versionHistories0 \<Rightarrow>
                      (case NewVersionHistoriesFromThrift_loop EmptyVersion s1 versionHistories0
                              (drop 1 (Histories input)) of
                         Inl e \<Rightarrow> Inl e
                       | Inr (s2, versionHistories) \<Rightarrow>
                           if currentVersionHistoryIndex' \<noteq>
                              currentVersionHistoryIndex versionHistories
                           then Inl (Panic (Text
                             ''unable to initialize version histories: current index mismatch''))
                           else Inr (s2, versionHistories)))))"

text \<open>
  The wire form of an item value and of a history given by its token and item values.
\<close>

definition wire_item :: "VersionHistoryItem \<Rightarrow> thrift_VersionHistoryItem" where
  "wire_item x = \<lparr>EventID = Some (eventID x), Version = Some (version x)\<rparr>"

definition wire_history :: "byte list \<Rightarrow> VersionHistoryItem list \<Rightarrow> thrift_VersionHistory" where
  "wire_history token xs = \<lparr>BranchToken = token, Items = map (\<lambda>x. Some (wire_item x)) xs\<rparr>"

subsection \<open>The invariant of VersionHistories\<close>

text \<open>
  The data model's invariant: at least one history; every history is valid and not empty;
  the first items of all histories have the same version; the current index is in range.
  \<open>first_highest\<close> says that the current history is the first one whose last item has
  the highest version of all.
\<close>

definition last_version :: "store \<Rightarrow> VersionHistory \<Rightarrow> int" where
  "last_version s v = version (s ! last (items v))"

definition first_version :: "store \<Rightarrow> VersionHistory \<Rightarrow> int" where
  "first_version s v = version (s ! hd (items v))"

definition valid_VersionHistories :: "int \<Rightarrow> store \<Rightarrow> VersionHistories \<Rightarrow> bool" where
  "valid_VersionHistories EmptyVersion s h \<longleftrightarrow>
     histories h \<noteq> []
     \<and> 0 \<le> currentVersionHistoryIndex h
     \<and> currentVersionHistoryIndex h < int (length (histories h))
     \<and> list_all (\<lambda>v. valid_VersionHistory EmptyVersion s v \<and> items v \<noteq> []) (histories h)
     \<and> list_all (\<lambda>v. first_version s v = first_version s (hd (histories h))) (histories h)"

definition first_highest :: "int list \<Rightarrow> nat \<Rightarrow> bool" where
  "first_highest lastVersions c \<longleftrightarrow>
     c < length lastVersions
     \<and> list_all (\<lambda>x. x \<le> lastVersions ! c) lastVersions
     \<and> list_all (\<lambda>x. x < lastVersions ! c) (take c lastVersions)"

section \<open>Message queue (package sql)\<close>

text \<open>
  \<open>common.QueueType\<close> is an integer enumeration; message IDs and ack levels are Go
  \<open>int\<close>s. They are compared and stored, which \<open>int\<close> models as it is; the one sum,
  \<open>lastMessageID + 1\<close> in \<open>EnqueueMessage\<close>, is \<open>int_add\<close> below. A
  \<open>map[string]int\<close> is a map \<open>string \<rightharpoonup> int\<close>; reading a key it does not hold
  yields 0, as in Go.
\<close>

type_synonym QueueType = int

record QueueRow =
  QueueType :: QueueType
  MessageID :: int
  MessagePayload :: "byte list"

record QueueMessage =
  ID :: int
  Payload :: "byte list"

definition map_index :: "(string \<rightharpoonup> int) \<Rightarrow> string \<Rightarrow> int" where
  "map_index m k = (case m k of None \<Rightarrow> 0 | Some x \<Rightarrow> x)"

text \<open>
  The storage layer (\<open>sqldb.Interface\<close>, \<open>sqldb.Tx\<close> and \<open>sqlStore.txExecute\<close>) is
  not part of the sources at hand, so the queue takes it as a parameter: a record of
  operations on a database state \<open>'db\<close>. A read returns an error or its result; a write
  returns an optional error and the state it leaves. \<open>db_GetAckLevels\<close> returns
  \<open>None\<close> for the \<open>nil\<close> map of a queue that has no ack-level row.
\<close>

record 'db sqldb =
  db_GetLastEnqueuedMessageIDForUpdate :: "'db \<Rightarrow> QueueType \<Rightarrow> error + int"
  db_InsertIntoQueue :: "'db \<Rightarrow> QueueRow \<Rightarrow> error option \<times> 'db"
  db_GetMessagesFromQueue :: "'db \<Rightarrow> QueueType \<Rightarrow> int \<Rightarrow> int \<Rightarrow> error + QueueRow list"
  db_DeleteMessagesBefore :: "'db \<Rightarrow> QueueType \<Rightarrow> int \<Rightarrow> error option \<times> 'db"
  db_GetAckLevels :: "'db \<Rightarrow> QueueType \<Rightarrow> bool \<Rightarrow> error + (string \<rightharpoonup> int) option"
  db_InsertAckLevel :: "'db \<Rightarrow> QueueType \<Rightarrow> int \<Rightarrow> string \<Rightarrow> error option \<times> 'db"
  db_UpdateAckLevels :: "'db \<Rightarrow> QueueType \<Rightarrow> (string \<rightharpoonup> int) \<Rightarrow> error option \<times> 'db"
  db_txExecute :: "string \<Rightarrow> ('db \<Rightarrow> error option \<times> 'db) \<Rightarrow> 'db \<Rightarrow> error option \<times> 'db"

text \<open>
  Arithmetic on a Go \<open>int\<close>, which has 64 bits on the platforms the service runs on:
  the sum wraps around.
\<close>

definition int_add :: "int \<Rightarrow> int \<Rightarrow> int" where
  "int_add x y = sint (word_of_int x + word_of_int y :: 64 word)"

definition newQueueRow :: "QueueType \<Rightarrow> int \<Rightarrow> byte list \<Rightarrow> QueueRow" where
  "newQueueRow queueType messageID payload =
     \<lparr>QueueType = queueType, MessageID = messageID, MessagePayload = payload\<rparr>"

definition EnqueueMessage ::
  "'db sqldb \<Rightarrow> QueueType \<Rightarrow> 'db \<Rightarrow> byte list \<Rightarrow> error option \<times> 'db" where
  "EnqueueMessage db queueType st messagePayload =
     (case db_txExecute db ''EnqueueMessage''
        (\<lambda>tx.
           (case (case db_GetLastEnqueuedMessageIDForUpdate db tx queueType of
                    Inl err \<Rightarrow>
                      if err = ErrNoRows then Inr (- 1)
                      else Inl (Errorf ''failed to get last enqueued message id: %v'' err)
                  | Inr lastMessageID \<Rightarrow> Inr lastMessageID) of
              Inl err \<Rightarrow> (Some err, tx)
            | Inr lastMessageID \<Rightarrow>
                db_InsertIntoQueue db tx
                  (newQueueRow queueType (int_add lastMessageID 1) messagePayload)))
        st of
        (Some err, st') \<Rightarrow> (Some (InternalServiceError (ErrorText err)), st')
      | (None, st') \<Rightarrow> (None, st'))"

definition ReadMessages ::
  "'db sqldb \<Rightarrow> QueueType \<Rightarrow> 'db \<Rightarrow> int \<Rightarrow> int \<Rightarrow> error + QueueMessage list" where
  "ReadMessages db queueType st lastMessageID maxCount =
     (case db_GetMessagesFromQueue db st queueType lastMessageID maxCount of
        Inl err \<Rightarrow> Inl err
      | Inr rows \<Rightarrow>
          Inr (map (\<lambda>row. \<lparr>ID = MessageID row, Payload = MessagePayload row\<rparr>) rows))"

definition DeleteMessagesBefore ::
  "'db sqldb \<Rightarrow> QueueType \<Rightarrow> 'db \<Rightarrow> int \<Rightarrow> error option \<times> 'db" where
  "DeleteMessagesBefore db queueType st messageID =
     (case db_DeleteMessagesBefore db st queueType messageID of
        (Some err, st') \<Rightarrow>
          (Some (InternalServiceError
             (SprintfErr ''DeleteMessagesBefore operation failed. Error %v'' err)), st')
      | (None, st') \<Rightarrow> (None, st'))"

definition UpdateAckLevel ::
  "'db sqldb \<Rightarrow> QueueType \<Rightarrow> 'db \<Rightarrow> int \<Rightarrow> string \<Rightarrow> error option \<times> 'db" where
  "UpdateAckLevel db queueType st messageID clusterName =
     (case db_txExecute db ''UpdateAckLevel''
        (\<lambda>tx.
           (case db_GetAckLevels db tx queueType True of
              Inl err \<Rightarrow>
                (Some (InternalServiceError
                   (SprintfErr ''UpdateAckLevel operation failed. Error %v'' err)), tx)
            | Inr None \<Rightarrow>
                (case db_InsertAckLevel db tx queueType messageID clusterName of
                   (Some err, tx') \<Rightarrow>
                     (Some (InternalServiceError
                        (SprintfErr ''UpdateAckLevel operation failed. Error %v'' err)), tx')
                 | (None, tx') \<Rightarrow> (None, tx'))
            | Inr (Some clusterAckLevels) \<Rightarrow>
                if map_index clusterAckLevels clusterName > messageID then (None, tx)
                else
                  (case db_UpdateAckLevels db tx queueType
                          (clusterAckLevels(clusterName \<mapsto> messageID)) of
                     (Some err, tx') \<Rightarrow>
                       (Some (InternalServiceError
                          (SprintfErr ''UpdateAckLevel operation failed. Error %v'' err)), tx')
                   | (None, tx') \<Rightarrow> (None, tx'))))
        st of
        (Some err, st') \<Rightarrow> (Some (InternalServiceError (ErrorText err)), st')
      | (None, st') \<Rightarrow> (None, st'))"

definition GetAckLevels ::
  "'db sqldb \<Rightarrow> QueueType \<Rightarrow> 'db \<Rightarrow> error + (string \<rightharpoonup> int) option" where
  "GetAckLevels db queueType st = db_GetAckLevels db st queueType False"

text \<open>
  Modelled from the spec: a storage layer as the spec describes it. The message table has
  the primary key (queue type, message ID); there is one ack-level map for each queue
  type, absent until the first insert; a transaction either commits what its body wrote or
  changes nothing. The parameter \<open>fault\<close> tells which storage call fails, and with
  which error.
\<close>

record queue_store =
  queue_rows :: "QueueRow list"
  queue_ack_levels :: "QueueType \<rightharpoonup> (string \<rightharpoonup> int)"

definition spec_db :: "(string \<Rightarrow> error option) \<Rightarrow> queue_store sqldb" where
  "spec_db fault =
     \<lparr>db_GetLastEnqueuedMessageIDForUpdate = (\<lambda>st queueType.
        case fault ''GetLastEnqueuedMessageIDForUpdate'' of
          Some err \<Rightarrow> Inl err
        | None \<Rightarrow>
            (case map MessageID (filter (\<lambda>row. QueueType row = queueType) (queue_rows st)) of
               [] \<Rightarrow> Inl ErrNoRows
             | messageID # messageIDs \<Rightarrow> Inr (fold max messageIDs messageID))),
      db_InsertIntoQueue = (\<lambda>st row.
        case fault ''InsertIntoQueue'' of
          Some err \<Rightarrow> (Some err, st)
        | None \<Rightarrow>
            if list_ex (\<lambda>r. QueueType r = QueueType row \<and> MessageID r = MessageID row)
                 (queue_rows st)
            then (Some (DriverError ''duplicate primary key''), st)
            else (None, st\<lparr>queue_rows := queue_rows st @ [row]\<rparr>)),
      db_GetMessagesFromQueue = (\<lambda>st queueType lastMessageID maxCount.
        case fault ''GetMessagesFromQueue'' of
          Some err \<Rightarrow> Inl err
        | None \<Rightarrow>
            Inr (take (nat maxCount) (sort_key MessageID
                   (filter (\<lambda>row. QueueType row = queueType \<and> MessageID row > lastMessageID)
                      (queue_rows st))))),
      db_DeleteMessagesBefore = (\<lambda>st queueType messageID.
        case fault ''DeleteMessagesBefore'' of
          Some err \<Rightarrow> (Some err, st)
        | None \<Rightarrow>
            (None, st\<lparr>queue_rows :=
               filter (\<lambda>row. \<not> (QueueType row = queueType \<and> MessageID row < messageID))
                 (queue_rows st)\<rparr>)),
      db_GetAckLevels = (\<lambda>st queueType forUpdate.
        case fault ''GetAckLevels'' of
          Some err \<Rightarrow> Inl err
        | None \<Rightarrow> Inr (queue_ack_levels st queueType)),
      db_InsertAckLevel = (\<lambda>st queueType messageID clusterName.
        case fault ''InsertAckLevel'' of
          Some err \<Rightarrow> (Some err, st)
        | None \<Rightarrow>
            (None, st\<lparr>queue_ack_levels :=
               (queue_ack_levels st)(queueType \<mapsto> [clusterName \<mapsto> messageID])\<rparr>)),
      db_UpdateAckLevels = (\<lambda>st queueType clusterAckLevels.
        case fault ''UpdateAckLevels'' of
          Some err \<Rightarrow> (Some err, st)
        | None \<Rightarrow>
            (None, st\<lparr>queue_ack_levels :=
               (queue_ack_levels st)(queueType \<mapsto> clusterAckLevels)\<rparr>)),
      db_txExecute = (\<lambda>operation f st.
        case fault ''BeginTx'' of
          Some err \<Rightarrow> (Some err, st)
        | None \<Rightarrow>
            (case f st of
               (Some err, tx) \<Rightarrow> (Some err, st)
             | (None, tx) \<Rightarrow>
                 (case fault ''Commit'' of
                    Some err \<Rightarrow> (Some err, st)
                  | None \<Rightarrow> (None, tx))))\<rparr>"

text \<open>
  The ack level stored for a cluster, and the order in which a store is at or above
  another for every cluster that has a level.
\<close>

definition ack_level :: "queue_store \<Rightarrow> QueueType \<Rightarrow> string \<Rightarrow> int option" where
  "ack_level st queueType clusterName =
     (case queue_ack_levels st queueType of None \<Rightarrow> None | Some m \<Rightarrow> m clusterName)"

definition ack_levels_le :: "QueueType \<Rightarrow> queue_store \<Rightarrow> queue_store \<Rightarrow> bool" where
  "ack_levels_le queueType st st' \<longleftrightarrow>
     (\<forall>c l. ack_level st queueType c = Some l \<longrightarrow>
        (\<exists>l'. ack_level st' queueType c = Some l' \<and> l \<le> l'))"

text \<open>
  A run of \<open>UpdateAckLevel\<close> calls on one queue, each with its own faults; the run
  is \<open>Some\<close> when every call returned success.
\<close>

fun UpdateAckLevel_calls ::
  "QueueType \<Rightarrow> queue_store \<Rightarrow> ((string \<Rightarrow> error option) \<times> int \<times> string) list \<Rightarrow>
     queue_store option" where
  "UpdateAckLevel_calls queueType st [] = Some st"
| "UpdateAckLevel_calls queueType st ((fault, messageID, clusterName) # calls) =
     (case UpdateAckLevel (spec_db fault) queueType st messageID clusterName of
        (Some err, st') \<Rightarrow> None
      | (None, st') \<Rightarrow> UpdateAckLevel_calls queueType st' calls)"

section \<open>Workflow resetter (package history)\<close>

text \<open>
  Event IDs and versions are \<open>int64\<close>; the decision gate adds 1 to one, so they are
  64-bit words here: \<open>+\<close> wraps around and \<open>sint\<close> reads the signed value.
\<close>

type_synonym int64 = "64 word"

text \<open>
  Modelled from the spec: the mutable state, its decision and activity infos, the state
  rebuilder, the history store and \<open>scheduleDecision\<close> are collaborators whose code is
  not part of the sources at hand. The infos carry the fields the resetter reads. The
  collaborators are parameters: a record of operations on a mutable state \<open>'ms\<close>. An
  operation that writes returns an optional error and the state it leaves.
  \<open>ms_GetInFlightDecision\<close> returns \<open>None\<close> when Go returns \<open>ok = false\<close>.
  \<open>ms_GetPendingActivityInfos\<close> is a Go map; the list is the order in which the
  \<open>range\<close> loop visits it, which may be any order.
\<close>

record decisionInfo =
  decision_ScheduleID :: int64
  decision_StartedID :: int64

record ActivityInfo =
  ScheduleID :: int64
  StartedID :: int64
  Details :: "byte list"
  StartedIdentity :: string

record RespondActivityTaskFailedRequest =
  Reason :: string
  request_Details :: "byte list"
  Identity :: string

datatype DecisionTaskFailedCause = DecisionTaskFailedCauseResetWorkflow

record DecisionTaskFailedEvent_args =
  arg_scheduleEventID :: int64
  arg_startedEventID :: int64
  arg_cause :: DecisionTaskFailedCause
  arg_details :: "byte list"
  arg_identity :: string
  arg_reason :: string
  arg_baseRunID :: string
  arg_newRunID :: string
  arg_forkEventVersion :: int64



record rebuild_args =
  rebuild_baseWorkflowIdentifier :: "string \<times> string \<times> string"
  rebuild_baseBranchToken :: "byte list"
  rebuild_baseRebuildLastEventID :: int64
  rebuild_baseRebuildLastEventVersion :: int64
  rebuild_targetWorkflowIdentifier :: "string \<times> string \<times> string"
  rebuild_targetBranchToken :: "byte list"
  rebuild_requestID :: string

record 'ms collaborators =
  ms_GetCurrentVersion :: "'ms \<Rightarrow> int64"
  ms_UpdateCurrentVersion :: "'ms \<Rightarrow> int64 \<Rightarrow> bool \<Rightarrow> error option \<times> 'ms"
  ms_GetInFlightDecision :: "'ms \<Rightarrow> decisionInfo option"
  ms_GetNextEventID :: "'ms \<Rightarrow> int64"
  ms_AddDecisionTaskFailedEvent :: "'ms \<Rightarrow> DecisionTaskFailedEvent_args \<Rightarrow> error option \<times> 'ms"
  ms_GetPendingActivityInfos :: "'ms \<Rightarrow> ActivityInfo list"
  ms_AddActivityTaskFailedEvent ::
    "'ms \<Rightarrow> int64 \<Rightarrow> int64 \<Rightarrow> RespondActivityTaskFailedRequest \<Rightarrow> error option \<times> 'ms"
  ms_AddWorkflowExecutionSignaled ::
    "'ms \<Rightarrow> string \<Rightarrow> byte list \<Rightarrow> string \<Rightarrow> error option \<times> 'ms"
  ForkHistoryBranch :: "byte list \<Rightarrow> int64 \<Rightarrow> string \<times> string \<times> string \<Rightarrow> error + byte list"
  CompleteForkBranch :: "byte list \<Rightarrow> bool \<Rightarrow> error option"
  rebuild :: "rebuild_args \<Rightarrow> error + ('ms \<times> int64)"
  reapplyContinueAsNewWorkflowEvents ::
    "'ms \<Rightarrow> string \<Rightarrow> string \<Rightarrow> string \<Rightarrow> byte list \<Rightarrow> int64 \<Rightarrow> int64 \<Rightarrow> error option \<times> 'ms"
  scheduleDecision :: "'ms \<Rightarrow> error option \<times> 'ms"

text \<open>
  The calls that write to the mutable state are recorded, in order, next to the state:
  an event is appended exactly when the call that appends it is made.
\<close>

datatype call =
    Call_UpdateCurrentVersion int64 bool
  | Call_AddDecisionTaskFailedEvent DecisionTaskFailedEvent_args
  | Call_AddActivityTaskFailedEvent int64 int64 RespondActivityTaskFailedRequest
  | Call_AddWorkflowExecutionSignaled string "byte list" string
  | Call_reapplyContinueAsNewWorkflowEvents
  | Call_scheduleDecision

definition record_call :: "call \<Rightarrow> error option \<times> 'ms \<Rightarrow> call list \<Rightarrow> error option \<times> 'ms \<times> call list" where
  "record_call c r calls = (fst r, snd r, calls @ [c])"

text \<open>
  \<open>failInflightActivity\<close>. \<open>EmptyEventID\<close> and \<open>TransientEventID\<close> are constants of
  package \<open>common\<close>, taken as parameters. The \<open>switch\<close> tests them in this order.
\<close>

fun failInflightActivity_loop ::
  "'ms collaborators \<Rightarrow> int64 \<Rightarrow> int64 \<Rightarrow> string \<Rightarrow> 'ms \<Rightarrow> call list \<Rightarrow> ActivityInfo list \<Rightarrow>
     error option \<times> 'ms \<times> call list" where
  "failInflightActivity_loop r EmptyEventID TransientEventID terminateReason mutableState calls [] =
     (None, mutableState, calls)"
| "failInflightActivity_loop r EmptyEventID TransientEventID terminateReason mutableState calls (ai # rest) =
     (if StartedID ai = EmptyEventID then
        failInflightActivity_loop r EmptyEventID TransientEventID terminateReason mutableState calls rest
      else if StartedID ai = TransientEventID then
        (Some (InternalServiceError (Text ''workflowResetter encounter transient activity'')),
         mutableState, calls)
      else
        (case record_call
                (Call_AddActivityTaskFailedEvent (ScheduleID ai) (StartedID ai)
                   \<lparr>Reason = terminateReason, request_Details = Details ai,
                    Identity = StartedIdentity ai\<rparr>)
                (ms_AddActivityTaskFailedEvent r mutableState (ScheduleID ai) (StartedID ai)
                   \<lparr>Reason = terminateReason, request_Details = Details ai,
                    Identity = StartedIdentity ai\<rparr>)
                calls of
           (Some err, mutableState', calls') \<Rightarrow> (Some err, mutableState', calls')
         | (None, mutableState', calls') \<Rightarrow>
             failInflightActivity_loop r EmptyEventID TransientEventID terminateReason
               mutableState' calls' rest))"

definition failInflightActivity ::
  "'ms collaborators \<Rightarrow> int64 \<Rightarrow> int64 \<Rightarrow> 'ms \<Rightarrow> call list \<Rightarrow> string \<Rightarrow>
     error option \<times> 'ms \<times> call list" where
  "failInflightActivity r EmptyEventID TransientEventID mutableState calls terminateReason =
     failInflightActivity_loop r EmptyEventID TransientEventID terminateReason mutableState calls
       (ms_GetPendingActivityInfos r mutableState)"

text \<open>
  The call that appends the \<open>ActivityTaskFailed\<close> event of an activity: its reason is
  the terminate reason, its details and identity are those of the activity info.
\<close>

definition activity_call :: "string \<Rightarrow> ActivityInfo \<Rightarrow> call" where
  "activity_call reason ai =
     Call_AddActivityTaskFailedEvent (ScheduleID ai) (StartedID ai)
       \<lparr>Reason = reason, request_Details = Details ai, Identity = StartedIdentity ai\<rparr>"

text \<open>
  The call that fails the activity \<open>ai\<close> on the state \<open>ms\<close>, with what it returns,
  and what it means for one pending activity to be handled without an error, taking the
  state \<open>ms\<close> to \<open>ms'\<close>: an activity that has not started is skipped and leaves the state
  as it is; for any other one the call is made and succeeds.
\<close>

definition fail_activity :: "'ms collaborators \<Rightarrow> string \<Rightarrow> 'ms \<Rightarrow> ActivityInfo \<Rightarrow> error option \<times> 'ms" where
  "fail_activity r reason ms ai =
     ms_AddActivityTaskFailedEvent r ms (ScheduleID ai) (StartedID ai)
       \<lparr>Reason = reason, request_Details = Details ai, Identity = StartedIdentity ai\<rparr>"

definition activity_handled ::
  "'ms collaborators \<Rightarrow> int64 \<Rightarrow> string \<Rightarrow> ActivityInfo \<Rightarrow> 'ms \<Rightarrow> 'ms \<Rightarrow> bool" where
  "activity_handled r EmptyEventID reason ai ms ms' \<longleftrightarrow>
     (if StartedID ai = EmptyEventID then ms' = ms
      else fail_activity r reason ms ai = (None, ms'))"









text \<open>
  A small mutable state for concrete runs: it holds the current version, the in-flight
  decision, the next event ID and the pending activities; every event that is added
  takes the next event ID. The rebuilder returns the state it is given.
\<close>

record example_state =
  ex_version :: int64
  ex_decision :: "decisionInfo option"
  ex_nextEventID :: int64
  ex_activities :: "ActivityInfo list"

definition example_collaborators :: "example_state \<Rightarrow> example_state collaborators" where
  "example_collaborators rebuilt =
     \<lparr>ms_GetCurrentVersion = ex_version,
      ms_UpdateCurrentVersion = (\<lambda>ms v force. (None, ms\<lparr>ex_version := v\<rparr>)),
      ms_GetInFlightDecision = ex_decision,
      ms_GetNextEventID = ex_nextEventID,
      ms_AddDecisionTaskFailedEvent = (\<lambda>ms args.
        (None, ms\<lparr>ex_decision := None, ex_nextEventID := ex_nextEventID ms + 1\<rparr>)),
      ms_GetPendingActivityInfos = ex_activities,
      ms_AddActivityTaskFailedEvent = (\<lambda>ms scheduleID startedID request.
        (None, ms\<lparr>ex_activities := filter (\<lambda>ai. ScheduleID ai \<noteq> scheduleID) (ex_activities ms),
                  ex_nextEventID := ex_nextEventID ms + 1\<rparr>)),
      ms_AddWorkflowExecutionSignaled = (\<lambda>ms signalName input identity.
        (None, ms\<lparr>ex_nextEventID := ex_nextEventID ms + 1\<rparr>)),
      ForkHistoryBranch = (\<lambda>forkBranchToken forkNodeID info. Inr (forkBranchToken @ [1])),
      CompleteForkBranch = (\<lambda>branchToken success. None),
      rebuild = (\<lambda>args. Inr (rebuilt, 0)),
      reapplyContinueAsNewWorkflowEvents = (\<lambda>ms domainID workflowID baseRunID baseBranchToken
        baseRebuildNextEventID baseNextEventID. (None, ms)),
      scheduleDecision = (\<lambda>ms. (None, ms\<lparr>ex_nextEventID := ex_nextEventID ms + 1\<rparr>))\<rparr>"

definition example_rebuilt :: example_state where
  "example_rebuilt =
     \<lparr>ex_version = 1,
      ex_decision = Some \<lparr>decision_ScheduleID = 9, decision_StartedID = 10\<rparr>,
      ex_nextEventID = 11,
      ex_activities =
        [\<lparr>ScheduleID = 5, StartedID = 6, Details = [7], StartedIdentity = ''worker''\<rparr>,
         \<lparr>ScheduleID = 8, StartedID = 0, Details = [], StartedIdentity = ''''\<rparr>]\<rparr>"


section \<open>Properties of the version history\<close>

subsection \<open>AddOrUpdateItem\<close>

lemma Duplicate_valid:
  "valid_item ev (s ! item) \<Longrightarrow> Duplicate ev s item = Inr (s @ [s ! item], length s)"
  by (simp add: Duplicate_def NewVersionHistoryItem_def valid_item_def)

lemma AddOrUpdateItem_empty:
  "valid_item ev (s ! item) \<Longrightarrow> items v = [] \<Longrightarrow>
   AddOrUpdateItem ev s v item = Inr (s @ [s ! item], v\<lparr>items := [length s]\<rparr>)"
  by (simp add: AddOrUpdateItem_def Duplicate_valid)

lemma AddOrUpdateItem_reject:
  "items v \<noteq> [] \<Longrightarrow>
   version (s ! item) < version (s ! last (items v)) \<or> eventID (s ! item) \<le> eventID (s ! last (items v)) \<Longrightarrow>
   \<exists>m. AddOrUpdateItem ev s v item = Inl (BadRequestError m)"
  by (auto simp add: AddOrUpdateItem_def Let_def last_conv_nth)

lemma AddOrUpdateItem_append:
  "valid_item ev (s ! item) \<Longrightarrow> items v \<noteq> [] \<Longrightarrow>
   version (s ! last (items v)) < version (s ! item) \<Longrightarrow> eventID (s ! last (items v)) < eventID (s ! item) \<Longrightarrow>
   AddOrUpdateItem ev s v item = Inr (s @ [s ! item], v\<lparr>items := items v @ [length s]\<rparr>)"
  by (simp add: AddOrUpdateItem_def Let_def last_conv_nth Duplicate_valid)

lemma AddOrUpdateItem_extend:
  "items v \<noteq> [] \<Longrightarrow>
   version (s ! last (items v)) = version (s ! item) \<Longrightarrow> eventID (s ! last (items v)) < eventID (s ! item) \<Longrightarrow>
   AddOrUpdateItem ev s v item =
     Inr (s[last (items v) := (s ! last (items v))\<lparr>eventID := eventID (s ! item)\<rparr>], v)"
  by (simp add: AddOrUpdateItem_def Let_def last_conv_nth)

lemma item_values_append_store:
  "list_all (\<lambda>p. p < length s) (items v) \<Longrightarrow> item_values (s @ t) v = item_values s v"
  by (simp add: item_values_def list_all_iff nth_append)

lemma strictly_increasing_snoc:
  "strictly_increasing (xs @ [x]) \<longleftrightarrow>
     strictly_increasing xs \<and> (\<forall>y\<in>set xs. item_less y x)"
  by (auto simp add: strictly_increasing_def sorted_wrt_append)

lemma item_less_trans: "item_less x y \<Longrightarrow> item_less y z \<Longrightarrow> item_less x z"
  by (auto simp add: item_less_def)

lemma strictly_increasing_last:
  "strictly_increasing xs \<Longrightarrow> xs \<noteq> [] \<Longrightarrow> item_less (last xs) x \<Longrightarrow> y \<in> set xs \<Longrightarrow> item_less y x"
proof (induction xs rule: rev_induct)
  case Nil then show ?case by simp
next
  case (snoc a xs)
  then show ?case
    by (auto simp add: strictly_increasing_snoc intro: item_less_trans)
qed

lemma AddOrUpdateItem_increasing:
  assumes al: "allocated s v" and inc: "strictly_increasing (item_values s v)"
    and res: "AddOrUpdateItem ev s v item = Inr (s', v')"
  shows "strictly_increasing (item_values s' v') \<and> allocated s' v'"
proof (cases "items v = []")
  case True
  with res show ?thesis
    by (auto simp add: AddOrUpdateItem_def Duplicate_def NewVersionHistoryItem_def item_values_def
        strictly_increasing_def allocated_def split: if_splits)
next
  case False
  let ?l = "last (items v)"
  from al have bound: "list_all (\<lambda>p. p < length s) (items v)" and dist: "distinct (items v)"
    by (simp_all add: allocated_def)
  from False have lastv: "last (item_values s v) = s ! ?l"
    by (simp add: item_values_def last_map)
  from res False have nrej: "\<not> version (s ! item) < version (s ! ?l)" "eventID (s ! ?l) < eventID (s ! item)"
    by (auto simp add: AddOrUpdateItem_def Let_def last_conv_nth split: if_splits)
  show ?thesis
  proof (cases "version (s ! ?l) < version (s ! item)")
    case True
    with res False nrej have eq: "s' = s @ [s ! item]" "v' = v\<lparr>items := items v @ [length s]\<rparr>"
      by (auto simp add: AddOrUpdateItem_def Let_def last_conv_nth Duplicate_def NewVersionHistoryItem_def
          split: if_splits)
    have vals: "item_values s' v' = item_values s v @ [s ! item]"
      using bound by (simp add: eq item_values_def list_all_iff nth_append)
    have "item_less (last (item_values s v)) (s ! item)"
      using True nrej by (simp add: lastv item_less_def)
    then have "\<forall>y\<in>set (item_values s v). item_less y (s ! item)"
      using strictly_increasing_last [OF inc] False by (auto simp add: item_values_def)
    moreover have "allocated s' v'"
      using bound dist by (auto simp add: eq allocated_def list_all_iff)
    ultimately show ?thesis
      using inc by (simp add: vals strictly_increasing_snoc)
  next
    case F2: False
    with res False nrej have eq: "s' = s[?l := (s ! ?l)\<lparr>eventID := eventID (s ! item)\<rparr>]" "v' = v"
      by (auto simp add: AddOrUpdateItem_def Let_def last_conv_nth split: if_splits)
    obtain ps l where ps: "items v = ps @ [l]"
      using False by (metis append_butlast_last_id)
    then have l: "last (items v) = l" by simp
    have lnotin: "l \<notin> set ps" using dist ps by simp
    have lb: "l < length s" using bound ps by (simp add: list_all_iff)
    have same: "map (\<lambda>p. s[l := x] ! p) ps = map (\<lambda>p. s ! p) ps" for x
      using lnotin by (induction ps) auto
    have vals: "item_values s' v' = map (\<lambda>p. s ! p) ps @ [(s ! ?l)\<lparr>eventID := eventID (s ! item)\<rparr>]"
      using lb same by (simp add: eq item_values_def ps)
    have old: "item_values s v = map (\<lambda>p. s ! p) ps @ [s ! ?l]"
      using ps by (simp add: item_values_def)
    have "\<forall>y\<in>set (map (\<lambda>p. s ! p) ps). item_less y ((s ! ?l)\<lparr>eventID := eventID (s ! item)\<rparr>)"
      using inc nrej by (auto simp add: old strictly_increasing_snoc item_less_def)
    moreover have "allocated s' v'" using al by (simp add: eq allocated_def)
    ultimately show ?thesis
      using inc by (simp add: vals old strictly_increasing_snoc)
  qed
qed

text \<open>
  C1. \<open>AddOrUpdateItem\<close>, for every history and every valid item. On an empty
  history a fresh copy of the item is appended. Otherwise, with \<open>lastItem\<close> the last
  item: the call fails with a \<open>BadRequestError\<close> when the item's version is below the
  last version or its event ID is not above the last event ID; it appends a fresh copy when
  the version is above the last one; and when the version is the last one and the event ID is
  above, the only write is to the event ID of \<open>lastItem\<close> in the store, the history
  itself being returned as it was. The copy is at the fresh address \<open>length s\<close>, so it
  is no alias of the item or of anything else. When the call succeeds on a history whose items
  are strictly increasing in event ID and version, they still are afterwards.
\<close>

theorem AddOrUpdateItem_case_analysis:
  assumes "valid_item ev (s ! item)"
  shows "(items v = [] \<longrightarrow>
            AddOrUpdateItem ev s v item = Inr (s @ [s ! item], v\<lparr>items := [length s]\<rparr>))
       \<and> (items v \<noteq> [] \<longrightarrow>
            (let lastItem = last (items v) in
               (version (s ! item) < version (s ! lastItem) \<or> eventID (s ! item) \<le> eventID (s ! lastItem) \<longrightarrow>
                  (\<exists>m. AddOrUpdateItem ev s v item = Inl (BadRequestError m)))
             \<and> (version (s ! lastItem) < version (s ! item) \<and> eventID (s ! lastItem) < eventID (s ! item) \<longrightarrow>
                  AddOrUpdateItem ev s v item =
                    Inr (s @ [s ! item], v\<lparr>items := items v @ [length s]\<rparr>))
             \<and> (version (s ! lastItem) = version (s ! item) \<and> eventID (s ! lastItem) < eventID (s ! item) \<longrightarrow>
                  AddOrUpdateItem ev s v item =
                    Inr (s[lastItem := (s ! lastItem)\<lparr>eventID := eventID (s ! item)\<rparr>], v))))
       \<and> (\<forall>s' v'. allocated s v \<and> strictly_increasing (item_values s v)
              \<and> AddOrUpdateItem ev s v item = Inr (s', v') \<longrightarrow>
            strictly_increasing (item_values s' v') \<and> allocated s' v')"
proof (intro conjI impI allI)
  assume "items v = []"
  with assms show "AddOrUpdateItem ev s v item = Inr (s @ [s ! item], v\<lparr>items := [length s]\<rparr>)"
    by (rule AddOrUpdateItem_empty)
next
  assume ne: "items v \<noteq> []"
  show "let lastItem = last (items v) in
               (version (s ! item) < version (s ! lastItem) \<or> eventID (s ! item) \<le> eventID (s ! lastItem) \<longrightarrow>
                  (\<exists>m. AddOrUpdateItem ev s v item = Inl (BadRequestError m)))
             \<and> (version (s ! lastItem) < version (s ! item) \<and> eventID (s ! lastItem) < eventID (s ! item) \<longrightarrow>
                  AddOrUpdateItem ev s v item =
                    Inr (s @ [s ! item], v\<lparr>items := items v @ [length s]\<rparr>))
             \<and> (version (s ! lastItem) = version (s ! item) \<and> eventID (s ! lastItem) < eventID (s ! item) \<longrightarrow>
                  AddOrUpdateItem ev s v item =
                    Inr (s[lastItem := (s ! lastItem)\<lparr>eventID := eventID (s ! item)\<rparr>], v))"
    unfolding Let_def
    using AddOrUpdateItem_reject [OF ne, of s item ev] AddOrUpdateItem_append [OF assms ne]
      AddOrUpdateItem_extend [OF ne, of s item ev]
    by blast
next
  fix s' v'
  assume "allocated s v \<and> strictly_increasing (item_values s v)
              \<and> AddOrUpdateItem ev s v item = Inr (s', v')"
  then show "strictly_increasing (item_values s' v')" "allocated s' v'"
    using AddOrUpdateItem_increasing by blast+
qed

theorem AddOrUpdateItem_case_analysis_witness:
  "valid_item (- 24) ([\<lparr>eventID = 5, version = 0\<rparr>] ! 0)
   \<and> AddOrUpdateItem (- 24) [\<lparr>eventID = 5, version = 0\<rparr>] \<lparr>branchToken = [], items = []\<rparr> 0 =
       Inr ([\<lparr>eventID = 5, version = 0\<rparr>, \<lparr>eventID = 5, version = 0\<rparr>],
            \<lparr>branchToken = [], items = [1]\<rparr>)
   \<and> valid_item (- 24) ([\<lparr>eventID = 5, version = 0\<rparr>, \<lparr>eventID = 4, version = 0\<rparr>] ! 1)
   \<and> (\<exists>m. AddOrUpdateItem (- 24) [\<lparr>eventID = 5, version = 0\<rparr>, \<lparr>eventID = 4, version = 0\<rparr>]
         \<lparr>branchToken = [], items = [0]\<rparr> 1 = Inl (BadRequestError m))
   \<and> valid_item (- 24) ([\<lparr>eventID = 5, version = 0\<rparr>, \<lparr>eventID = 6, version = 0\<rparr>] ! 1)
   \<and> AddOrUpdateItem (- 24) [\<lparr>eventID = 5, version = 0\<rparr>, \<lparr>eventID = 6, version = 0\<rparr>]
        \<lparr>branchToken = [], items = [0]\<rparr> 1 =
       Inr ([\<lparr>eventID = 6, version = 0\<rparr>, \<lparr>eventID = 6, version = 0\<rparr>],
            \<lparr>branchToken = [], items = [0]\<rparr>)
   \<and> strictly_increasing (item_values [\<lparr>eventID = 6, version = 0\<rparr>, \<lparr>eventID = 6, version = 0\<rparr>]
        \<lparr>branchToken = [], items = [0]\<rparr>)
   \<and> valid_item (- 24) ([\<lparr>eventID = 6, version = 0\<rparr>, \<lparr>eventID = 7, version = 1\<rparr>] ! 1)
   \<and> AddOrUpdateItem (- 24) [\<lparr>eventID = 6, version = 0\<rparr>, \<lparr>eventID = 7, version = 1\<rparr>]
        \<lparr>branchToken = [], items = [0]\<rparr> 1 =
       Inr ([\<lparr>eventID = 6, version = 0\<rparr>, \<lparr>eventID = 7, version = 1\<rparr>, \<lparr>eventID = 7, version = 1\<rparr>],
            \<lparr>branchToken = [], items = [0, 2]\<rparr>)"
proof -
  let ?emp = "\<lparr>branchToken = [], items = []\<rparr>"
  let ?v = "\<lparr>branchToken = [], items = [0]\<rparr>"
  let ?s1 = "[\<lparr>eventID = 5, version = 0\<rparr>]"
  let ?s2 = "[\<lparr>eventID = 5, version = 0\<rparr>, \<lparr>eventID = 4, version = 0\<rparr>]"
  let ?s3 = "[\<lparr>eventID = 5, version = 0\<rparr>, \<lparr>eventID = 6, version = 0\<rparr>]"
  let ?s4 = "[\<lparr>eventID = 6, version = 0\<rparr>, \<lparr>eventID = 7, version = 1\<rparr>]"
  have h1: "valid_item (- 24) (?s1 ! 0)" by (simp add: valid_item_def)
  have h2: "valid_item (- 24) (?s2 ! 1)" by (simp add: valid_item_def)
  have h3: "valid_item (- 24) (?s3 ! 1)" by (simp add: valid_item_def)
  have h4: "valid_item (- 24) (?s4 ! 1)" by (simp add: valid_item_def)
  have a3: "allocated ?s3 ?v \<and> strictly_increasing (item_values ?s3 ?v)"
    by (simp add: allocated_def strictly_increasing_def item_values_def)
  from AddOrUpdateItem_case_analysis [OF h1, of ?emp]
  have c1: "AddOrUpdateItem (- 24) ?s1 ?emp 0 =
      Inr ([\<lparr>eventID = 5, version = 0\<rparr>, \<lparr>eventID = 5, version = 0\<rparr>], \<lparr>branchToken = [], items = [1]\<rparr>)"
    by simp
  from AddOrUpdateItem_case_analysis [OF h2, of ?v]
  have c2: "\<exists>m. AddOrUpdateItem (- 24) ?s2 ?v 1 = Inl (BadRequestError m)"
    by (simp add: Let_def)
  from AddOrUpdateItem_case_analysis [OF h3, of ?v] a3
  have c3: "AddOrUpdateItem (- 24) ?s3 ?v 1 =
      Inr ([\<lparr>eventID = 6, version = 0\<rparr>, \<lparr>eventID = 6, version = 0\<rparr>], ?v)
    \<and> strictly_increasing (item_values [\<lparr>eventID = 6, version = 0\<rparr>, \<lparr>eventID = 6, version = 0\<rparr>] ?v)"
    by (simp add: Let_def)
  from AddOrUpdateItem_case_analysis [OF h4, of ?v]
  have c4: "AddOrUpdateItem (- 24) ?s4 ?v 1 =
      Inr ([\<lparr>eventID = 6, version = 0\<rparr>, \<lparr>eventID = 7, version = 1\<rparr>, \<lparr>eventID = 7, version = 1\<rparr>],
           \<lparr>branchToken = [], items = [0, 2]\<rparr>)"
    by (simp add: Let_def)
  from h1 h2 h3 h4 c1 c2 c3 c4 show ?thesis by (intro conjI) simp_all
qed

subsection \<open>DuplicateUntilLCAItem\<close>

lemma Duplicate_cases:
  "Duplicate ev s item = Inr (s', d) \<Longrightarrow> s' = s @ [s ! item] \<and> d = length s"
  by (auto simp add: Duplicate_def NewVersionHistoryItem_def split: if_splits)

lemma AddOrUpdateItem_frame:
  assumes res: "AddOrUpdateItem ev s vh item = Inr (s', vh')"
    and n: "n \<le> length s" and fr: "fresh_items n s vh"
  shows "take n s' = take n s \<and> length s \<le> length s' \<and> branchToken vh' = branchToken vh
         \<and> fresh_items n s' vh'"
proof (cases "items vh = []")
  case True
  with res n show ?thesis
    by (auto simp add: AddOrUpdateItem_def fresh_items_def dest!: Duplicate_cases split: sum.splits)
next
  case False
  then have l: "n \<le> last (items vh)"
    using fr by (simp add: fresh_items_def list_all_iff)
  from res False n fr l show ?thesis
    by (auto simp add: AddOrUpdateItem_def Let_def last_conv_nth fresh_items_def list_all_iff
        less_Suc_eq
        dest!: Duplicate_cases split: sum.splits if_splits)
qed

lemma DuplicateUntilLCAItem_loop_frame:
  "DuplicateUntilLCAItem_loop ev s vh lcaItem ps = Inr (s', nv) \<Longrightarrow>
   n \<le> length s \<Longrightarrow> fresh_items n s vh \<Longrightarrow>
   take n s' = take n s \<and> length s \<le> length s' \<and> branchToken nv = branchToken vh
     \<and> fresh_items n s' nv"
proof (induction ps arbitrary: s vh)
  case Nil
  then show ?case by simp
next
  case (Cons p ps)
  show ?case
  proof (cases "version (s ! p) < version (s ! lcaItem)")
    case True
    with Cons.prems(1) obtain s1 vh1 where
      a: "AddOrUpdateItem ev s vh p = Inr (s1, vh1)"
      and r: "DuplicateUntilLCAItem_loop ev s1 vh1 lcaItem ps = Inr (s', nv)"
      by (auto split: sum.splits)
    from AddOrUpdateItem_frame [OF a Cons.prems(2,3)]
    have f: "take n s1 = take n s" "length s \<le> length s1" "branchToken vh1 = branchToken vh"
      "fresh_items n s1 vh1" by simp_all
    from Cons.IH [OF r _ f(4)] f Cons.prems(2) show ?thesis by simp
  next
    case False
    with Cons.prems(1) have "AddOrUpdateItem ev s vh lcaItem = Inr (s', nv)"
      by (auto split: sum.splits if_splits)
    from AddOrUpdateItem_frame [OF this Cons.prems(2,3)] show ?thesis .
  qed
qed

lemma NewVersionHistory_nil: "NewVersionHistory ev s tok [] = Inr (s, \<lparr>branchToken = tok, items = []\<rparr>)"
  by (simp add: NewVersionHistory_def)

text \<open>
  C10. When \<open>DuplicateUntilLCAItem\<close> succeeds, the history it returns has an empty
  branch token whatever the token of \<open>v\<close> is (\<open>SetBranchToken\<close> installs one
  afterwards), and \<open>v\<close> is left as it was: every item allocated before the call is
  unchanged in the store, so the item values of \<open>v\<close> are the same, and the items of
  the new history are all freshly allocated.
\<close>

theorem DuplicateUntilLCAItem_empty_token:
  assumes "DuplicateUntilLCAItem ev s v lcaItem = Inr (s', nv)"
  shows "branchToken nv = [] \<and> length (GetBranchToken nv) = 0
       \<and> take (length s) s' = s
       \<and> (list_all (\<lambda>p. p < length s) (items v) \<longrightarrow> item_values s' v = item_values s v)
       \<and> list_all (\<lambda>p. length s \<le> p \<and> p < length s') (items nv)
       \<and> GetBranchToken (SetBranchToken nv token) = token"
proof -
  from assms have r: "DuplicateUntilLCAItem_loop ev s \<lparr>branchToken = [], items = []\<rparr> lcaItem (items v) = Inr (s', nv)"
    by (simp add: DuplicateUntilLCAItem_def NewVersionHistory_nil)
  have "fresh_items (length s) s \<lparr>branchToken = [], items = []\<rparr>" by (simp add: fresh_items_def)
  from DuplicateUntilLCAItem_loop_frame [OF r _ this]
  have f: "take (length s) s' = s" "length s \<le> length s'" "branchToken nv = []" "fresh_items (length s) s' nv"
    by simp_all
  have "item_values s' v = item_values s v" if "list_all (\<lambda>p. p < length s) (items v)"
  proof -
    have "s' ! p = s ! p" if "p < length s" for p
      using f(1) that by (metis nth_take)
    with that show ?thesis by (simp add: item_values_def list_all_iff)
  qed
  with f show ?thesis
    by (simp add: GetBranchToken_def SetBranchToken_def fresh_items_def)
qed

theorem DuplicateUntilLCAItem_empty_token_witness:
  "DuplicateUntilLCAItem (- 24)
     [\<lparr>eventID = 3, version = 0\<rparr>, \<lparr>eventID = 7, version = 1\<rparr>, \<lparr>eventID = 5, version = 1\<rparr>]
     \<lparr>branchToken = [1, 2], items = [0, 1]\<rparr> 2 =
   Inr ([\<lparr>eventID = 3, version = 0\<rparr>, \<lparr>eventID = 7, version = 1\<rparr>, \<lparr>eventID = 5, version = 1\<rparr>,
         \<lparr>eventID = 3, version = 0\<rparr>, \<lparr>eventID = 5, version = 1\<rparr>],
        \<lparr>branchToken = [], items = [3, 4]\<rparr>)
   \<and> branchToken \<lparr>branchToken = [], items = [3, 4 :: nat]\<rparr> = []"
proof -
  let ?s = "[\<lparr>eventID = 3, version = 0\<rparr>, \<lparr>eventID = 7, version = 1\<rparr>, \<lparr>eventID = 5, version = 1\<rparr>]"
  let ?v = "\<lparr>branchToken = [1, 2], items = [0, 1]\<rparr>"
  let ?s' = "?s @ [\<lparr>eventID = 3, version = 0\<rparr>, \<lparr>eventID = 5, version = 1\<rparr>]"
  let ?nv = "\<lparr>branchToken = [], items = [3, 4]\<rparr>"
  have h: "DuplicateUntilLCAItem (- 24) ?s ?v 2 = Inr (?s', ?nv)"
    by (simp add: DuplicateUntilLCAItem_def NewVersionHistory_def AddOrUpdateItem_def
        Duplicate_def NewVersionHistoryItem_def)
  from DuplicateUntilLCAItem_empty_token [OF h] h show ?thesis by simp
qed

subsection \<open>GetVersionHistory\<close>

lemma GetVersionHistory_at_length:
  "GetVersionHistory h (int (length (histories h))) =
     Inl (Panic (Text ''runtime error: index out of range''))"
  by (simp add: GetVersionHistory_def)

text \<open>
  C4. An index outside \<open>[0, |histories|)\<close> is to be rejected with the
  \<open>BadRequestError\<close> "invalid branch index.", the index \<open>|histories|\<close> included.
  The guard of \<open>GetVersionHistory\<close> tests \<open>branchIndex > len(h.histories)\<close>, so the
  index \<open>|histories|\<close> passes it and the slice is read out of bounds: with one history,
  index 1 panics.
\<close>

theorem GetVersionHistory_off_by_one:
  "GetVersionHistory
     \<lparr>currentVersionHistoryIndex = 0, histories = [\<lparr>branchToken = [], items = []\<rparr>]\<rparr> 1
     = Inl (Panic (Text ''runtime error: index out of range''))"
  by (simp add: GetVersionHistory_def)

subsection \<open>FindLCAItem and ContainsItem\<close>

lemma item_eqI: "eventID (x::VersionHistoryItem) = eventID y \<Longrightarrow> version x = version y \<Longrightarrow> x = y"
  by simp

lemma FindLCAItem_loop_stop1:
  "i < 0 \<Longrightarrow>
   FindLCAItem_loop ev s a b i j =
     Inl (BadRequestError (Text ''version history is malformed. No joint point found.''))"
  by (subst FindLCAItem_loop.simps) simp

lemma FindLCAItem_loop_stop2:
  "j < 0 \<Longrightarrow>
   FindLCAItem_loop ev s a b i j =
     Inl (BadRequestError (Text ''version history is malformed. No joint point found.''))"
  by (subst FindLCAItem_loop.simps) simp

lemma FindLCAItem_loop_stop:
  "i < 0 \<or> j < 0 \<Longrightarrow>
   FindLCAItem_loop ev s a b i j =
     Inl (BadRequestError (Text ''version history is malformed. No joint point found.''))"
  using FindLCAItem_loop_stop1 FindLCAItem_loop_stop2 by blast

lemma FindLCAItem_loop_eq:
  "0 \<le> i \<Longrightarrow> 0 \<le> j \<Longrightarrow>
   version (s ! (items a ! nat i)) = version (s ! (items b ! nat j)) \<Longrightarrow>
   FindLCAItem_loop ev s a b i j =
     (if eventID (s ! (items a ! nat i)) > eventID (s ! (items b ! nat j))
      then Duplicate ev s (items b ! nat j) else Duplicate ev s (items a ! nat i))"
  by (subst FindLCAItem_loop.simps) simp

lemma FindLCAItem_loop_gt:
  "0 \<le> i \<Longrightarrow> 0 \<le> j \<Longrightarrow>
   version (s ! (items a ! nat i)) > version (s ! (items b ! nat j)) \<Longrightarrow>
   FindLCAItem_loop ev s a b i j = FindLCAItem_loop ev s a b (i - 1) j"
  by (subst FindLCAItem_loop.simps) simp

lemma FindLCAItem_loop_lt:
  "0 \<le> i \<Longrightarrow> 0 \<le> j \<Longrightarrow>
   version (s ! (items a ! nat i)) < version (s ! (items b ! nat j)) \<Longrightarrow>
   FindLCAItem_loop ev s a b i j = FindLCAItem_loop ev s a b i (j - 1)"
  by (subst FindLCAItem_loop.simps) simp

lemma FindLCAItem_loop_sym:
  "FindLCAItem_loop ev s a b i j = FindLCAItem_loop ev s b a j i"
proof (induction ev s a b i j rule: FindLCAItem_loop.induct)
  case (1 ev s v remote i j)
  show ?case
  proof (cases "0 \<le> i \<and> 0 \<le> j")
    case False
    then have "i < 0 \<or> j < 0" "j < 0 \<or> i < 0" by linarith+
    then show ?thesis
      by (simp only: FindLCAItem_loop_stop)
  next
    case True
    then have i: "0 \<le> i" and j: "0 \<le> j" by simp_all
    let ?l = "s ! (items v ! nat i)" and ?r = "s ! (items remote ! nat j)"
    consider (eq) "version ?l = version ?r" | (gt) "version ?l > version ?r" | (lt) "version ?l < version ?r"
      by linarith
    then show ?thesis
    proof cases
      case eq
      have same: "Duplicate ev s (items v ! nat i) = Duplicate ev s (items remote ! nat j)"
        if "eventID ?l = eventID ?r"
      proof -
        from that eq have "?l = ?r" by (rule item_eqI)
        then show ?thesis by (simp add: Duplicate_def)
      qed
      have L: "FindLCAItem_loop ev s v remote i j =
          (if eventID ?l > eventID ?r then Duplicate ev s (items remote ! nat j)
           else Duplicate ev s (items v ! nat i))"
        using i j eq by (rule FindLCAItem_loop_eq)
      have R: "FindLCAItem_loop ev s remote v j i =
          (if eventID ?r > eventID ?l then Duplicate ev s (items v ! nat i)
           else Duplicate ev s (items remote ! nat j))"
        using j i eq [symmetric] by (rule FindLCAItem_loop_eq)
      consider "eventID ?l > eventID ?r" | "eventID ?l < eventID ?r" | "eventID ?l = eventID ?r"
        by linarith
      then show ?thesis
        by cases (simp_all add: L R same)
    next
      case gt
      have "FindLCAItem_loop ev s v remote i j = FindLCAItem_loop ev s v remote (i - 1) j"
        using i j gt by (rule FindLCAItem_loop_gt)
      also have "\<dots> = FindLCAItem_loop ev s remote v j (i - 1)"
        using True gt by (intro "1.IH"(1)) simp_all
      also have "\<dots> = FindLCAItem_loop ev s remote v j i"
        using j i gt by (rule FindLCAItem_loop_lt [symmetric])
      finally show ?thesis .
    next
      case lt
      have "FindLCAItem_loop ev s v remote i j = FindLCAItem_loop ev s v remote i (j - 1)"
        using i j lt by (rule FindLCAItem_loop_lt)
      also have "\<dots> = FindLCAItem_loop ev s remote v (j - 1) i"
        using True lt by (intro "1.IH"(2)) simp_all
      also have "\<dots> = FindLCAItem_loop ev s remote v j i"
        using j i lt by (rule FindLCAItem_loop_gt [symmetric])
      finally show ?thesis .
    qed
  qed
qed

lemma FindLCAItem_sym: "FindLCAItem ev s a b = FindLCAItem ev s b a"
  by (simp add: FindLCAItem_def FindLCAItem_loop_sym)

lemma valid_item_less:
  assumes "valid_VersionHistory ev s v" and "i < j" and "j < length (items v)"
  shows "item_less (s ! (items v ! i)) (s ! (items v ! j))"
proof -
  from assms(1) have "sorted_wrt item_less (map (\<lambda>p. s ! p) (items v))"
    by (simp add: valid_VersionHistory_def strictly_increasing_def item_values_def)
  with assms(2,3) have "item_less (map (\<lambda>p. s ! p) (items v) ! i) (map (\<lambda>p. s ! p) (items v) ! j)"
    by (simp add: sorted_wrt_iff_nth_less)
  with assms(2,3) show ?thesis by simp
qed

lemma valid_version_less:
  assumes "valid_VersionHistory ev s v" and "i < j" and "j < length (items v)"
  shows "version (s ! (items v ! i)) < version (s ! (items v ! j))"
  using valid_item_less [OF assms] by (simp add: item_less_def)

lemma valid_version_le:
  assumes "valid_VersionHistory ev s v" and "i \<le> j" and "j < length (items v)"
  shows "version (s ! (items v ! i)) \<le> version (s ! (items v ! j))"
proof (cases "i = j")
  case True
  then show ?thesis by simp
next
  case False
  with assms(2) have "i < j" by simp
  from valid_version_less [OF assms(1) this assms(3)] show ?thesis by simp
qed

lemma FindLCAItem_loop_none:
  "i < int (length (items a)) \<Longrightarrow> j < int (length (items b)) \<Longrightarrow>
   \<forall>k l. k \<le> nat i \<and> l \<le> nat j \<longrightarrow>
      version (s ! (items a ! k)) \<noteq> version (s ! (items b ! l)) \<Longrightarrow>
   FindLCAItem_loop ev s a b i j =
     Inl (BadRequestError (Text ''version history is malformed. No joint point found.''))"
proof (induction ev s a b i j rule: FindLCAItem_loop.induct)
  case (1 ev s v remote i j)
  show ?case
  proof (cases "0 \<le> i \<and> 0 \<le> j")
    case False
    then have "i < 0 \<or> j < 0" by linarith
    then show ?thesis by (rule FindLCAItem_loop_stop)
  next
    case True
    then have i: "0 \<le> i" and j: "0 \<le> j" by simp_all
    let ?p = "items v ! nat i" and ?q = "items remote ! nat j"
    from "1.prems"(3) have ne: "version (s ! ?p) \<noteq> version (s ! ?q)" by simp
    then consider (gt) "version (s ! ?p) > version (s ! ?q)" | (lt) "version (s ! ?p) < version (s ! ?q)"
      by linarith
    then show ?thesis
    proof cases
      case gt
      have b1: "i - 1 < int (length (items v))" using "1.prems"(1) by simp
      have b3: "\<forall>k l. k \<le> nat (i - 1) \<and> l \<le> nat j \<longrightarrow>
          version (s ! (items v ! k)) \<noteq> version (s ! (items remote ! l))"
      proof (intro allI impI)
        fix k l
        assume h: "k \<le> nat (i - 1) \<and> l \<le> nat j"
        then have "k \<le> nat i" by linarith
        with h "1.prems"(3) show "version (s ! (items v ! k)) \<noteq> version (s ! (items remote ! l))"
          by blast
      qed
      have "FindLCAItem_loop ev s v remote (i - 1) j =
          Inl (BadRequestError (Text ''version history is malformed. No joint point found.''))"
        using True ne gt b1 "1.prems"(2) b3 by (intro "1.IH"(1)) simp_all
      then show ?thesis by (simp only: FindLCAItem_loop_gt [OF i j gt])
    next
      case lt
      have b2: "j - 1 < int (length (items remote))" using "1.prems"(2) by simp
      have b3: "\<forall>k l. k \<le> nat i \<and> l \<le> nat (j - 1) \<longrightarrow>
          version (s ! (items v ! k)) \<noteq> version (s ! (items remote ! l))"
      proof (intro allI impI)
        fix k l
        assume h: "k \<le> nat i \<and> l \<le> nat (j - 1)"
        then have "l \<le> nat j" by linarith
        with h "1.prems"(3) show "version (s ! (items v ! k)) \<noteq> version (s ! (items remote ! l))"
          by blast
      qed
      have "FindLCAItem_loop ev s v remote i (j - 1) =
          Inl (BadRequestError (Text ''version history is malformed. No joint point found.''))"
        using True ne lt "1.prems"(1) b2 b3 by (intro "1.IH"(2)) simp_all
      then show ?thesis by (simp only: FindLCAItem_loop_lt [OF i j lt])
    qed
  qed
qed

lemma FindLCAItem_loop_found:
  "valid_VersionHistory ev s a \<Longrightarrow> valid_VersionHistory ev s b \<Longrightarrow>
   i < int (length (items a)) \<Longrightarrow> j < int (length (items b)) \<Longrightarrow>
   0 \<le> i \<Longrightarrow> 0 \<le> j \<Longrightarrow> k \<le> nat i \<Longrightarrow> l \<le> nat j \<Longrightarrow>
   version (s ! (items a ! k)) = version (s ! (items b ! l)) \<Longrightarrow>
   \<forall>k' l'. k' \<le> nat i \<and> l' \<le> nat j
      \<and> version (s ! (items a ! k')) = version (s ! (items b ! l')) \<longrightarrow> k' \<le> k \<Longrightarrow>
   FindLCAItem_loop ev s a b i j =
     (if eventID (s ! (items a ! k)) > eventID (s ! (items b ! l))
      then Duplicate ev s (items b ! l) else Duplicate ev s (items a ! k))"
proof (induction ev s a b i j rule: FindLCAItem_loop.induct)
  case (1 ev s v remote i j)
  note va = "1.prems"(1) and vb = "1.prems"(2) and ilen = "1.prems"(3) and jlen = "1.prems"(4)
    and i = "1.prems"(5) and j = "1.prems"(6) and k = "1.prems"(7) and l = "1.prems"(8)
    and shared = "1.prems"(9) and highest = "1.prems"(10)
  from i j have True: "0 \<le> i \<and> 0 \<le> j" by simp
  have ni: "nat i < length (items v)" using i ilen by simp
  have nj: "nat j < length (items remote)" using j jlen by simp
  let ?p = "items v ! nat i" and ?q = "items remote ! nat j"
  consider (eq) "version (s ! ?p) = version (s ! ?q)" | (gt) "version (s ! ?p) > version (s ! ?q)"
    | (lt) "version (s ! ?p) < version (s ! ?q)"
    by linarith
  then show ?case
  proof cases
    case eq
    from highest [rule_format, of "nat i" "nat j"] eq have "nat i \<le> k" by simp
    with k have ki: "k = nat i" by simp
    have lj: "l = nat j"
    proof (rule ccontr)
      assume "l \<noteq> nat j"
      with l have "l < nat j" by simp
      from valid_version_less [OF vb this nj] shared ki eq show False by simp
    qed
    from FindLCAItem_loop_eq [OF i j eq] ki lj show ?thesis by simp
  next
    case gt
    have "k \<noteq> nat i"
    proof
      assume "k = nat i"
      with shared gt have "version (s ! (items remote ! l)) > version (s ! ?q)" by simp
      moreover from valid_version_le [OF vb l nj]
      have "version (s ! (items remote ! l)) \<le> version (s ! ?q)" .
      ultimately show False by simp
    qed
    with k have klt: "k < nat i" by simp
    then have i1: "0 \<le> i - 1" and k1: "k \<le> nat (i - 1)" by linarith+
    have b1: "i - 1 < int (length (items v))" using ilen by simp
    have h1: "\<forall>k' l'. k' \<le> nat (i - 1) \<and> l' \<le> nat j
      \<and> version (s ! (items v ! k')) = version (s ! (items remote ! l')) \<longrightarrow> k' \<le> k"
    proof (intro allI impI)
      fix k' l'
      assume h: "k' \<le> nat (i - 1) \<and> l' \<le> nat j
        \<and> version (s ! (items v ! k')) = version (s ! (items remote ! l'))"
      then have "k' \<le> nat i" by linarith
      with h highest show "k' \<le> k" by blast
    qed
    have "FindLCAItem_loop ev s v remote (i - 1) j =
     (if eventID (s ! (items v ! k)) > eventID (s ! (items remote ! l))
      then Duplicate ev s (items remote ! l) else Duplicate ev s (items v ! k))"
      using True gt va vb b1 jlen i1 j k1 l shared h1 by (intro "1.IH"(1)) simp_all
    then show ?thesis by (simp only: FindLCAItem_loop_gt [OF i j gt])
  next
    case lt
    have "l \<noteq> nat j"
    proof
      assume "l = nat j"
      with shared lt have "version (s ! (items v ! k)) > version (s ! ?p)" by simp
      moreover from valid_version_le [OF va k ni]
      have "version (s ! (items v ! k)) \<le> version (s ! ?p)" .
      ultimately show False by simp
    qed
    with l have llt: "l < nat j" by simp
    then have j1: "0 \<le> j - 1" and l1: "l \<le> nat (j - 1)" by linarith+
    have b2: "j - 1 < int (length (items remote))" using jlen by simp
    have h1: "\<forall>k' l'. k' \<le> nat i \<and> l' \<le> nat (j - 1)
      \<and> version (s ! (items v ! k')) = version (s ! (items remote ! l')) \<longrightarrow> k' \<le> k"
    proof (intro allI impI)
      fix k' l'
      assume h: "k' \<le> nat i \<and> l' \<le> nat (j - 1)
        \<and> version (s ! (items v ! k')) = version (s ! (items remote ! l'))"
      then have "l' \<le> nat j" by linarith
      with h highest show "k' \<le> k" by blast
    qed
    have "FindLCAItem_loop ev s v remote i (j - 1) =
     (if eventID (s ! (items v ! k)) > eventID (s ! (items remote ! l))
      then Duplicate ev s (items remote ! l) else Duplicate ev s (items v ! k))"
      using True lt va vb ilen b2 i j1 k l1 shared h1 by (intro "1.IH"(2)) simp_all
    then show ?thesis by (simp only: FindLCAItem_loop_lt [OF i j lt])
  qed
qed

lemma valid_VersionHistory_item:
  "valid_VersionHistory ev s v \<Longrightarrow> p \<in> set (items v) \<Longrightarrow> valid_item ev (s ! p) \<and> p < length s"
  by (auto simp add: valid_VersionHistory_def allocated_def list_all_iff item_values_def)

lemma FindLCAItem_found:
  assumes va: "valid_VersionHistory ev s a" and vb: "valid_VersionHistory ev s b"
    and jp: "joint_point s a b p q"
  shows "FindLCAItem ev s a b =
     Inr (s @ [if eventID (s ! p) > eventID (s ! q) then s ! q else s ! p], length s)"
proof -
  from jp have p: "p \<in> set (items a)" and q: "q \<in> set (items b)"
    and shared: "version (s ! p) = version (s ! q)"
    and top: "\<And>p' q'. p' \<in> set (items a) \<Longrightarrow> q' \<in> set (items b) \<Longrightarrow>
        version (s ! p') = version (s ! q') \<Longrightarrow> version (s ! p') \<le> version (s ! p)"
    by (auto simp add: joint_point_def)
  from p obtain k where k: "k < length (items a)" "items a ! k = p"
    by (auto simp add: in_set_conv_nth)
  from q obtain l where l: "l < length (items b)" "items b ! l = q"
    by (auto simp add: in_set_conv_nth)
  let ?i = "int (length (items a)) - 1" and ?j = "int (length (items b)) - 1"
  have highest: "\<forall>k' l'. k' \<le> nat ?i \<and> l' \<le> nat ?j
      \<and> version (s ! (items a ! k')) = version (s ! (items b ! l')) \<longrightarrow> k' \<le> k"
  proof (intro allI impI)
    fix k' l'
    assume h: "k' \<le> nat ?i \<and> l' \<le> nat ?j
      \<and> version (s ! (items a ! k')) = version (s ! (items b ! l'))"
    with k l have k': "k' < length (items a)" and l': "l' < length (items b)" by linarith+
    then have "items a ! k' \<in> set (items a)" "items b ! l' \<in> set (items b)" by simp_all
    from top [OF this] h k have le: "version (s ! (items a ! k')) \<le> version (s ! (items a ! k))"
      by simp
    show "k' \<le> k"
    proof (rule ccontr)
      assume "\<not> k' \<le> k"
      then have "k < k'" by simp
      from valid_version_less [OF va this k'] le show False by simp
    qed
  qed
  have bounds: "?i < int (length (items a))" "?j < int (length (items b))"
    "0 \<le> ?i" "0 \<le> ?j" "k \<le> nat ?i" "l \<le> nat ?j"
    using k(1) l(1) by linarith+
  have sh: "version (s ! (items a ! k)) = version (s ! (items b ! l))"
    using shared k l by simp
  have "FindLCAItem_loop ev s a b ?i ?j =
     (if eventID (s ! (items a ! k)) > eventID (s ! (items b ! l))
      then Duplicate ev s (items b ! l) else Duplicate ev s (items a ! k))"
    using va vb bounds sh highest by (rule FindLCAItem_loop_found)
  moreover have "Duplicate ev s p = Inr (s @ [s ! p], length s)"
    using valid_VersionHistory_item [OF va p] by (simp add: Duplicate_valid)
  moreover have "Duplicate ev s q = Inr (s @ [s ! q], length s)"
    using valid_VersionHistory_item [OF vb q] by (simp add: Duplicate_valid)
  ultimately show ?thesis
    using k l by (simp add: FindLCAItem_def)
qed

lemma FindLCAItem_none:
  assumes "\<not> (\<exists>p\<in>set (items a). \<exists>q\<in>set (items b). version (s ! p) = version (s ! q))"
  shows "FindLCAItem ev s a b =
     Inl (BadRequestError (Text ''version history is malformed. No joint point found.''))"
proof (cases "items a = [] \<or> items b = []")
  case True
  then have "int (length (items a)) - 1 < 0 \<or> int (length (items b)) - 1 < 0" by auto
  then show ?thesis
    unfolding FindLCAItem_def by (rule FindLCAItem_loop_stop)
next
  case False
  let ?i = "int (length (items a)) - 1" and ?j = "int (length (items b)) - 1"
  have none: "\<forall>k l. k \<le> nat ?i \<and> l \<le> nat ?j \<longrightarrow>
      version (s ! (items a ! k)) \<noteq> version (s ! (items b ! l))"
  proof (intro allI impI)
    fix k l
    assume "k \<le> nat ?i \<and> l \<le> nat ?j"
    moreover from False have "0 < length (items a)" "0 < length (items b)" by simp_all
    ultimately have "k < length (items a)" "l < length (items b)" by linarith+
    then have "items a ! k \<in> set (items a)" "items b ! l \<in> set (items b)" by simp_all
    with assms show "version (s ! (items a ! k)) \<noteq> version (s ! (items b ! l))" by blast
  qed
  have "?i < int (length (items a))" "?j < int (length (items b))" by simp_all
  from this none show ?thesis
    unfolding FindLCAItem_def by (rule FindLCAItem_loop_none)
qed

lemma joint_point_exists:
  assumes "\<exists>p\<in>set (items a). \<exists>q\<in>set (items b). version (s ! p) = version (s ! q)"
  shows "\<exists>p q. joint_point s a b p q"
proof -
  define S where "S = {p \<in> set (items a). \<exists>q\<in>set (items b). version (s ! p) = version (s ! q)}"
  define V where "V = (\<lambda>p. version (s ! p)) ` S"
  have fin: "finite V" by (simp add: V_def S_def)
  from assms have ne: "V \<noteq> {}" by (auto simp add: V_def S_def)
  from Max_in [OF fin ne] obtain p where p: "p \<in> S" "Max V = version (s ! p)"
    unfolding V_def by (rule imageE)
  from p(1) obtain q where pa: "p \<in> set (items a)" and q: "q \<in> set (items b)"
    "version (s ! p) = version (s ! q)"
    by (auto simp add: S_def)
  have "version (s ! p') \<le> version (s ! p)"
    if "p' \<in> set (items a)" "q' \<in> set (items b)" "version (s ! p') = version (s ! q')" for p' q'
  proof -
    from that have "p' \<in> S" by (auto simp add: S_def)
    then have "version (s ! p') \<in> V" by (simp add: V_def)
    from Max_ge [OF fin this] p(2) show ?thesis by simp
  qed
  with pa q have "joint_point s a b p q" by (simp add: joint_point_def)
  then show ?thesis by blast
qed

lemma ContainsItem_loop_above:
  "\<forall>p\<in>set ps. version (s ! item) < version (s ! p) \<Longrightarrow> \<not> ContainsItem_loop s item prev ps"
  by (cases ps) (simp_all add: GetVersion_def)

lemma ContainsItem_loop_char:
  "strictly_increasing (map (\<lambda>p. s ! p) ps) \<Longrightarrow> q \<in> set ps \<Longrightarrow>
   version (s ! item) = version (s ! q) \<Longrightarrow> eventID (s ! item) \<le> eventID (s ! q) \<Longrightarrow>
   prev \<le> eventID (s ! hd ps) \<Longrightarrow>
   ContainsItem_loop s item prev ps \<longleftrightarrow>
     (eventID (s ! item) = FirstEventID - 1
      \<or> (prev < eventID (s ! item)
         \<and> (\<forall>p'\<in>set ps. version (s ! p') < version (s ! item) \<longrightarrow>
               eventID (s ! p') < eventID (s ! item))))"
proof (induction ps arbitrary: prev)
  case Nil
  then show ?case by simp
next
  case (Cons p ps)
  from Cons.prems(1) have above: "\<forall>p'\<in>set ps. item_less (s ! p) (s ! p')"
    and inc: "strictly_increasing (map (\<lambda>p. s ! p) ps)"
    by (simp_all add: strictly_increasing_def)
  show ?case
  proof (cases "version (s ! item) = version (s ! p)")
    case True
    have qp: "s ! q = s ! p"
    proof (cases "q = p")
      case False
      with Cons.prems(2) have "q \<in> set ps" by simp
      with above have "version (s ! p) < version (s ! q)" by (simp add: item_less_def)
      with True Cons.prems(3) show ?thesis by simp
    qed simp
    with Cons.prems(4) have le: "eventID (s ! item) \<le> eventID (s ! p)" by simp
    from above True have up: "\<forall>p'\<in>set ps. version (s ! item) < version (s ! p')"
      by (simp add: item_less_def)
    then have rest: "\<not> ContainsItem_loop s item (eventID (s ! p)) ps"
      by (rule ContainsItem_loop_above)
    from up have none: "\<forall>p'\<in>set ps. \<not> version (s ! p') < version (s ! item)" by fastforce
    from True le rest none show ?thesis
      by (simp add: GetVersion_def GetEventID_def)
  next
    case False
    with Cons.prems(2,3) have q: "q \<in> set ps" by auto
    with above have "item_less (s ! p) (s ! q)" by simp
    with Cons.prems(3) have lt: "version (s ! p) < version (s ! item)" by (simp add: item_less_def)
    from q have "ps \<noteq> []" by auto
    then have "hd ps \<in> set ps" by simp
    with above have "item_less (s ! p) (s ! hd ps)" by blast
    then have "eventID (s ! p) \<le> eventID (s ! hd ps)" by (simp add: item_less_def)
    from Cons.IH [OF inc q Cons.prems(3,4) this]
    have IH: "ContainsItem_loop s item (eventID (s ! p)) ps \<longleftrightarrow>
     (eventID (s ! item) = FirstEventID - 1
      \<or> (eventID (s ! p) < eventID (s ! item)
         \<and> (\<forall>p'\<in>set ps. version (s ! p') < version (s ! item) \<longrightarrow>
               eventID (s ! p') < eventID (s ! item))))" .
    from Cons.prems(5) have "prev \<le> eventID (s ! p)" by simp
    with False lt IH show ?thesis
      by (auto simp add: GetVersion_def GetEventID_def)
  qed
qed

lemma ContainsItem_char:
  assumes v: "valid_VersionHistory ev s v" and q: "q \<in> set (items v)"
    and ver: "version x = version (s ! q)" and le: "eventID x \<le> eventID (s ! q)"
    and x: "0 \<le> eventID x"
  shows "ContainsItem (s @ [x]) v (length s) \<longleftrightarrow>
     (eventID x = FirstEventID - 1
      \<or> (\<forall>p'\<in>set (items v). version (s ! p') < version x \<longrightarrow> eventID (s ! p') < eventID x))"
proof -
  let ?s' = "s @ [x]"
  from v have bound: "\<forall>p\<in>set (items v). p < length s"
    by (simp add: valid_VersionHistory_def allocated_def list_all_iff)
  then have same: "\<forall>p\<in>set (items v). ?s' ! p = s ! p"
    by (simp add: nth_append)
  then have map_same: "map (\<lambda>p. ?s' ! p) (items v) = item_values s v"
    by (simp add: item_values_def)
  from q have ne: "items v \<noteq> []" by auto
  then have hd: "hd (items v) \<in> set (items v)" by simp
  from valid_VersionHistory_item [OF v hd] have "0 \<le> eventID (s ! hd (items v))"
    by (simp add: valid_item_def)
  with hd same have prev: "FirstEventID - 1 \<le> eventID (?s' ! hd (items v))"
    by (simp add: FirstEventID_def)
  have inc: "strictly_increasing (map (\<lambda>p. ?s' ! p) (items v))"
    using v map_same by (simp add: valid_VersionHistory_def)
  have ver': "version (?s' ! length s) = version (?s' ! q)" using ver same q by simp
  have le': "eventID (?s' ! length s) \<le> eventID (?s' ! q)" using le same q by simp
  from ContainsItem_loop_char [OF inc q ver' le' prev]
  have "ContainsItem ?s' v (length s) \<longleftrightarrow>
     (eventID x = FirstEventID - 1
      \<or> (FirstEventID - 1 < eventID x
         \<and> (\<forall>p'\<in>set (items v). version (?s' ! p') < version x \<longrightarrow> eventID (?s' ! p') < eventID x)))"
    by (simp add: ContainsItem_def)
  moreover have "(\<forall>p'\<in>set (items v). version (?s' ! p') < version x \<longrightarrow> eventID (?s' ! p') < eventID x)
     \<longleftrightarrow> (\<forall>p'\<in>set (items v). version (s ! p') < version x \<longrightarrow> eventID (s ! p') < eventID x)"
    using same by simp
  moreover have "eventID x = FirstEventID - 1 \<or> FirstEventID - 1 < eventID x"
    using x by (auto simp add: FirstEventID_def)
  ultimately show ?thesis by blast
qed

lemma ContainsItem_own:
  assumes v: "valid_VersionHistory ev s v" and q: "q \<in> set (items v)"
  shows "\<forall>p'\<in>set (items v). version (s ! p') < version (s ! q) \<longrightarrow> eventID (s ! p') < eventID (s ! q)"
proof (intro ballI impI)
  fix p'
  assume p': "p' \<in> set (items v)" and lt: "version (s ! p') < version (s ! q)"
  from p' obtain i where i: "i < length (items v)" "items v ! i = p'"
    by (auto simp add: in_set_conv_nth)
  from q obtain j where j: "j < length (items v)" "items v ! j = q"
    by (auto simp add: in_set_conv_nth)
  have "i < j"
  proof (rule ccontr)
    assume "\<not> i < j"
    then have "j \<le> i" by simp
    from valid_version_le [OF v this i(1)] i j lt show False by simp
  qed
  from valid_item_less [OF v this j(1)] i j show "eventID (s ! p') < eventID (s ! q)"
    by (simp add: item_less_def)
qed

text \<open>
  The item \<open>FindLCAItem\<close> returns need not satisfy \<open>ContainsItem\<close> in both
  histories. With \<open>a = [(5,0),(8,2)]\<close> and \<open>b = [(3,0),(4,2)]\<close> (event ID,
  version), both valid, the result is \<open>(4,2)\<close>; in \<open>a\<close> version 2 covers the
  event IDs 6 to 8 only.
\<close>

theorem FindLCAItem_not_contained_counterexample:
  "valid_VersionHistory (- 24)
     [\<lparr>eventID = 5, version = 0\<rparr>, \<lparr>eventID = 8, version = 2\<rparr>,
      \<lparr>eventID = 3, version = 0\<rparr>, \<lparr>eventID = 4, version = 2\<rparr>]
     \<lparr>branchToken = [], items = [0, 1]\<rparr>
   \<and> valid_VersionHistory (- 24)
     [\<lparr>eventID = 5, version = 0\<rparr>, \<lparr>eventID = 8, version = 2\<rparr>,
      \<lparr>eventID = 3, version = 0\<rparr>, \<lparr>eventID = 4, version = 2\<rparr>]
     \<lparr>branchToken = [], items = [2, 3]\<rparr>
   \<and> FindLCAItem (- 24)
     [\<lparr>eventID = 5, version = 0\<rparr>, \<lparr>eventID = 8, version = 2\<rparr>,
      \<lparr>eventID = 3, version = 0\<rparr>, \<lparr>eventID = 4, version = 2\<rparr>]
     \<lparr>branchToken = [], items = [0, 1]\<rparr> \<lparr>branchToken = [], items = [2, 3]\<rparr>
     = Inr ([\<lparr>eventID = 5, version = 0\<rparr>, \<lparr>eventID = 8, version = 2\<rparr>,
             \<lparr>eventID = 3, version = 0\<rparr>, \<lparr>eventID = 4, version = 2\<rparr>,
             \<lparr>eventID = 4, version = 2\<rparr>], 4)
   \<and> \<not> ContainsItem
     [\<lparr>eventID = 5, version = 0\<rparr>, \<lparr>eventID = 8, version = 2\<rparr>,
      \<lparr>eventID = 3, version = 0\<rparr>, \<lparr>eventID = 4, version = 2\<rparr>,
      \<lparr>eventID = 4, version = 2\<rparr>]
     \<lparr>branchToken = [], items = [0, 1]\<rparr> 4"
  by (simp add: valid_VersionHistory_def allocated_def item_values_def valid_item_def
      strictly_increasing_def item_less_def FindLCAItem_def FindLCAItem_loop.simps
      Duplicate_def NewVersionHistoryItem_def ContainsItem_def GetVersion_def GetEventID_def
      FirstEventID_def)

text \<open>
  C2. For valid histories \<open>a\<close> and \<open>b\<close>, \<open>FindLCAItem\<close> is symmetric:
  both calls return the same result. It fails, with the \<open>BadRequestError\<close>
  "version history is malformed. No joint point found.", exactly when no item of \<open>a\<close> has
  the version of an item of \<open>b\<close>. Otherwise it succeeds: with \<open>p\<close> and \<open>q\<close> the
  items of \<open>a\<close> and \<open>b\<close> that carry the highest shared version (the joint point), it
  returns a fresh copy \<open>x\<close> of the one with the smaller event ID. That copy satisfies
  \<open>ContainsItem\<close> in a history exactly when its event ID is \<open>FirstEventID - 1\<close> or
  exceeds the event ID of every item of that history with a lower version; this always
  holds in the history whose joint item has the smaller (or the same) event ID, and it may
  fail in the other one.
\<close>

theorem FindLCAItem_symmetric:
  assumes a: "valid_VersionHistory ev s a" and b: "valid_VersionHistory ev s b"
  shows "FindLCAItem ev s a b = FindLCAItem ev s b a
       \<and> (\<not> (\<exists>p\<in>set (items a). \<exists>q\<in>set (items b). version (s ! p) = version (s ! q)) \<longrightarrow>
            FindLCAItem ev s a b =
              Inl (BadRequestError (Text ''version history is malformed. No joint point found.'')))
       \<and> ((\<exists>p\<in>set (items a). \<exists>q\<in>set (items b). version (s ! p) = version (s ! q)) \<longrightarrow>
            (\<exists>p q x. joint_point s a b p q
               \<and> x = (if eventID (s ! p) > eventID (s ! q) then s ! q else s ! p)
               \<and> FindLCAItem ev s a b = Inr (s @ [x], length s)
               \<and> (ContainsItem (s @ [x]) a (length s) \<longleftrightarrow>
                    eventID x = FirstEventID - 1
                    \<or> (\<forall>p'\<in>set (items a). version (s ! p') < version x \<longrightarrow>
                          eventID (s ! p') < eventID x))
               \<and> (ContainsItem (s @ [x]) b (length s) \<longleftrightarrow>
                    eventID x = FirstEventID - 1
                    \<or> (\<forall>q'\<in>set (items b). version (s ! q') < version x \<longrightarrow>
                          eventID (s ! q') < eventID x))
               \<and> (eventID (s ! p) \<le> eventID (s ! q) \<longrightarrow> ContainsItem (s @ [x]) a (length s))
               \<and> (eventID (s ! q) \<le> eventID (s ! p) \<longrightarrow> ContainsItem (s @ [x]) b (length s))))"
proof (intro conjI impI)
  show "FindLCAItem ev s a b = FindLCAItem ev s b a" by (rule FindLCAItem_sym)
next
  assume "\<not> (\<exists>p\<in>set (items a). \<exists>q\<in>set (items b). version (s ! p) = version (s ! q))"
  then show "FindLCAItem ev s a b =
      Inl (BadRequestError (Text ''version history is malformed. No joint point found.''))"
    by (rule FindLCAItem_none)
next
  assume "\<exists>p\<in>set (items a). \<exists>q\<in>set (items b). version (s ! p) = version (s ! q)"
  from joint_point_exists [OF this] obtain p q where jp: "joint_point s a b p q" by blast
  then have p: "p \<in> set (items a)" and q: "q \<in> set (items b)"
    and shared: "version (s ! p) = version (s ! q)"
    by (simp_all add: joint_point_def)
  define x where "x = (if eventID (s ! p) > eventID (s ! q) then s ! q else s ! p)"
  have res: "FindLCAItem ev s a b = Inr (s @ [x], length s)"
    unfolding x_def using a b jp by (rule FindLCAItem_found)
  have xv: "version x = version (s ! p)" "version x = version (s ! q)"
    using shared by (simp_all add: x_def)
  have xe: "eventID x \<le> eventID (s ! p)" "eventID x \<le> eventID (s ! q)"
    by (simp_all add: x_def)
  have x0: "0 \<le> eventID x"
    using valid_VersionHistory_item [OF a p] valid_VersionHistory_item [OF b q]
    by (simp add: x_def valid_item_def)
  note ca = ContainsItem_char [OF a p xv(1) xe(1) x0]
  note cb = ContainsItem_char [OF b q xv(2) xe(2) x0]
  have ina: "ContainsItem (s @ [x]) a (length s)" if "eventID (s ! p) \<le> eventID (s ! q)"
  proof -
    from that have "x = s ! p" by (simp add: x_def)
    with ContainsItem_own [OF a p] ca show ?thesis by simp
  qed
  have inb: "ContainsItem (s @ [x]) b (length s)" if "eventID (s ! q) \<le> eventID (s ! p)"
  proof -
    from that shared have "x = s ! q" by (auto simp add: x_def intro: item_eqI)
    with ContainsItem_own [OF b q] cb show ?thesis by simp
  qed
  from jp x_def res ca cb ina inb
  show "\<exists>p q x. joint_point s a b p q
               \<and> x = (if eventID (s ! p) > eventID (s ! q) then s ! q else s ! p)
               \<and> FindLCAItem ev s a b = Inr (s @ [x], length s)
               \<and> (ContainsItem (s @ [x]) a (length s) \<longleftrightarrow>
                    eventID x = FirstEventID - 1
                    \<or> (\<forall>p'\<in>set (items a). version (s ! p') < version x \<longrightarrow>
                          eventID (s ! p') < eventID x))
               \<and> (ContainsItem (s @ [x]) b (length s) \<longleftrightarrow>
                    eventID x = FirstEventID - 1
                    \<or> (\<forall>q'\<in>set (items b). version (s ! q') < version x \<longrightarrow>
                          eventID (s ! q') < eventID x))
               \<and> (eventID (s ! p) \<le> eventID (s ! q) \<longrightarrow> ContainsItem (s @ [x]) a (length s))
               \<and> (eventID (s ! q) \<le> eventID (s ! p) \<longrightarrow> ContainsItem (s @ [x]) b (length s))"
    by blast
qed

theorem FindLCAItem_symmetric_witness:
  "valid_VersionHistory (- 24)
     [\<lparr>eventID = 5, version = 0\<rparr>, \<lparr>eventID = 8, version = 2\<rparr>,
      \<lparr>eventID = 5, version = 0\<rparr>, \<lparr>eventID = 6, version = 1\<rparr>, \<lparr>eventID = 9, version = 2\<rparr>]
     \<lparr>branchToken = [], items = [0, 1]\<rparr>
   \<and> valid_VersionHistory (- 24)
     [\<lparr>eventID = 5, version = 0\<rparr>, \<lparr>eventID = 8, version = 2\<rparr>,
      \<lparr>eventID = 5, version = 0\<rparr>, \<lparr>eventID = 6, version = 1\<rparr>, \<lparr>eventID = 9, version = 2\<rparr>]
     \<lparr>branchToken = [], items = [2, 3, 4]\<rparr>
   \<and> joint_point
     [\<lparr>eventID = 5, version = 0\<rparr>, \<lparr>eventID = 8, version = 2\<rparr>,
      \<lparr>eventID = 5, version = 0\<rparr>, \<lparr>eventID = 6, version = 1\<rparr>, \<lparr>eventID = 9, version = 2\<rparr>]
     \<lparr>branchToken = [], items = [0, 1]\<rparr> \<lparr>branchToken = [], items = [2, 3, 4]\<rparr> 1 4
   \<and> FindLCAItem (- 24)
     [\<lparr>eventID = 5, version = 0\<rparr>, \<lparr>eventID = 8, version = 2\<rparr>,
      \<lparr>eventID = 5, version = 0\<rparr>, \<lparr>eventID = 6, version = 1\<rparr>, \<lparr>eventID = 9, version = 2\<rparr>]
     \<lparr>branchToken = [], items = [2, 3, 4]\<rparr> \<lparr>branchToken = [], items = [0, 1]\<rparr>
     = Inr ([\<lparr>eventID = 5, version = 0\<rparr>, \<lparr>eventID = 8, version = 2\<rparr>,
      \<lparr>eventID = 5, version = 0\<rparr>, \<lparr>eventID = 6, version = 1\<rparr>, \<lparr>eventID = 9, version = 2\<rparr>,
      \<lparr>eventID = 8, version = 2\<rparr>], 5)
   \<and> ContainsItem [\<lparr>eventID = 5, version = 0\<rparr>, \<lparr>eventID = 8, version = 2\<rparr>,
      \<lparr>eventID = 5, version = 0\<rparr>, \<lparr>eventID = 6, version = 1\<rparr>, \<lparr>eventID = 9, version = 2\<rparr>,
      \<lparr>eventID = 8, version = 2\<rparr>] \<lparr>branchToken = [], items = [0, 1]\<rparr> 5
   \<and> FindLCAItem (- 24)
     [\<lparr>eventID = 5, version = 0\<rparr>, \<lparr>eventID = 8, version = 2\<rparr>,
      \<lparr>eventID = 5, version = 0\<rparr>, \<lparr>eventID = 6, version = 1\<rparr>, \<lparr>eventID = 9, version = 2\<rparr>]
     \<lparr>branchToken = [], items = [0]\<rparr> \<lparr>branchToken = [], items = [3, 4]\<rparr>
     = Inl (BadRequestError (Text ''version history is malformed. No joint point found.''))"
proof -
  let ?s = "[\<lparr>eventID = 5, version = 0\<rparr>, \<lparr>eventID = 8, version = 2\<rparr>,
      \<lparr>eventID = 5, version = 0\<rparr>, \<lparr>eventID = 6, version = 1\<rparr>, \<lparr>eventID = 9, version = 2\<rparr>]"
  let ?a = "\<lparr>branchToken = [], items = [0, 1]\<rparr>"
  let ?b = "\<lparr>branchToken = [], items = [2, 3, 4]\<rparr>"
  let ?c = "\<lparr>branchToken = [], items = [0]\<rparr>"
  let ?d = "\<lparr>branchToken = [], items = [3, 4]\<rparr>"
  have a: "valid_VersionHistory (- 24) ?s ?a"
    by (simp add: valid_VersionHistory_def allocated_def item_values_def valid_item_def
      strictly_increasing_def item_less_def)
  have b: "valid_VersionHistory (- 24) ?s ?b"
    by (simp add: valid_VersionHistory_def allocated_def item_values_def valid_item_def
      strictly_increasing_def item_less_def)
  have c: "valid_VersionHistory (- 24) ?s ?c"
    by (simp add: valid_VersionHistory_def allocated_def item_values_def valid_item_def
      strictly_increasing_def item_less_def)
  have d: "valid_VersionHistory (- 24) ?s ?d"
    by (simp add: valid_VersionHistory_def allocated_def item_values_def valid_item_def
      strictly_increasing_def item_less_def)
  have jp: "joint_point ?s ?a ?b 1 4"
    by (simp add: joint_point_def)
  have r: "FindLCAItem (- 24) ?s ?a ?b = Inr (?s @ [\<lparr>eventID = 8, version = 2\<rparr>], 5)"
    by (simp add: FindLCAItem_def FindLCAItem_loop.simps Duplicate_def NewVersionHistoryItem_def)
  from FindLCAItem_symmetric [OF a b, THEN conjunct1] r
  have sym: "FindLCAItem (- 24) ?s ?b ?a = Inr (?s @ [\<lparr>eventID = 8, version = 2\<rparr>], 5)"
    by simp
  have cont: "ContainsItem (?s @ [\<lparr>eventID = 8, version = 2\<rparr>]) ?a 5"
    by (simp add: ContainsItem_def GetVersion_def GetEventID_def FirstEventID_def)
  have none: "\<not> (\<exists>p\<in>set (items ?c). \<exists>q\<in>set (items ?d). version (?s ! p) = version (?s ! q))"
    by simp
  from FindLCAItem_symmetric [OF c d, THEN conjunct2, THEN conjunct1, THEN mp, OF none]
  have fail: "FindLCAItem (- 24) ?s ?c ?d =
      Inl (BadRequestError (Text ''version history is malformed. No joint point found.''))" .
  from a b jp sym cont fail show ?thesis by simp
qed

subsection \<open>AddVersionHistory and the wire form\<close>

lemma NewVersionHistory_loop_valid:
  "list_all (\<lambda>p. p < length s) ps \<Longrightarrow>
   list_all (\<lambda>p. p < length s) (items vh) \<Longrightarrow>
   list_all (valid_item ev) (map (\<lambda>p. s ! p) ps) \<Longrightarrow>
   strictly_increasing (item_values s vh @ map (\<lambda>p. s ! p) ps) \<Longrightarrow>
   \<exists>ext new. NewVersionHistory_loop ev s vh ps = Inr (s @ ext, vh\<lparr>items := items vh @ new\<rparr>)
      \<and> list_all (\<lambda>p. length s \<le> p \<and> p < length (s @ ext)) new
      \<and> distinct new
      \<and> map (\<lambda>p. (s @ ext) ! p) new = map (\<lambda>p. s ! p) ps"
proof (induction ps arbitrary: s vh)
  case Nil
  show ?case by (rule exI [of _ "[]"], rule exI [of _ "[]"]) simp
next
  case (Cons p ps)
  let ?x = "s ! p"
  let ?s1 = "s @ [?x]"
  let ?s2 = "s @ [?x, ?x]"
  let ?vh2 = "vh\<lparr>items := items vh @ [Suc (length s)]\<rparr>"
  from Cons.prems(3) have vx: "valid_item ev ?x" by simp
  have dup: "Duplicate ev s p = Inr (?s1, length s)"
    using vx by (rule Duplicate_valid)
  have x1: "?s1 ! length s = ?x" by simp
  have vx1: "valid_item ev (?s1 ! length s)" using vx by simp
  have vals1: "item_values ?s1 vh = item_values s vh"
    using Cons.prems(2) by (rule item_values_append_store)
  have add: "AddOrUpdateItem ev ?s1 vh (length s) = Inr (?s2, ?vh2)"
  proof (cases "items vh = []")
    case True
    from AddOrUpdateItem_empty [OF vx1 True] True show ?thesis by simp
  next
    case False
    then have "item_values s vh \<noteq> []" by (simp add: item_values_def)
    moreover have "last (item_values s vh) \<in> set (item_values s vh)"
      using calculation by simp
    ultimately have "item_less (last (item_values s vh)) ?x"
      using Cons.prems(4) by (simp add: strictly_increasing_def sorted_wrt_append)
    moreover have "last (item_values s vh) = ?s1 ! last (items vh)"
      using False Cons.prems(2) by (simp add: item_values_def last_map list_all_iff nth_append)
    ultimately have "version (?s1 ! last (items vh)) < version (?s1 ! length s)"
      "eventID (?s1 ! last (items vh)) < eventID (?s1 ! length s)"
      by (simp_all add: item_less_def)
    from AddOrUpdateItem_append [OF vx1 False this] show ?thesis by simp
  qed
  have step: "NewVersionHistory_loop ev s vh (p # ps) = NewVersionHistory_loop ev ?s2 ?vh2 ps"
    by (simp add: dup add)
  have b1: "list_all (\<lambda>p. p < length ?s2) ps"
    using Cons.prems(1) by (auto simp add: list_all_iff)
  have b2: "list_all (\<lambda>p. p < length ?s2) (items ?vh2)"
    using Cons.prems(2) by (auto simp add: list_all_iff)
  have same: "map (\<lambda>p. ?s2 ! p) ps = map (\<lambda>p. s ! p) ps"
    using Cons.prems(1) by (simp add: list_all_iff nth_append)
  have b3: "list_all (valid_item ev) (map (\<lambda>p. ?s2 ! p) ps)"
    using Cons.prems(3) by (simp only: same) simp
  have vals2: "item_values ?s2 ?vh2 = item_values s vh @ [?x]"
    using Cons.prems(2) by (simp add: item_values_def list_all_iff nth_append)
  have b4: "strictly_increasing (item_values ?s2 ?vh2 @ map (\<lambda>p. ?s2 ! p) ps)"
    using Cons.prems(4) by (simp only: vals2 same) simp
  from Cons.IH [OF b1 b2 b3 b4] obtain ext new where
    r: "NewVersionHistory_loop ev ?s2 ?vh2 ps = Inr (?s2 @ ext, ?vh2\<lparr>items := items ?vh2 @ new\<rparr>)"
    and n1: "list_all (\<lambda>p. length ?s2 \<le> p \<and> p < length (?s2 @ ext)) new"
    and n2: "distinct new"
    and n3: "map (\<lambda>p. (?s2 @ ext) ! p) new = map (\<lambda>p. ?s2 ! p) ps"
    by blast
  let ?ext = "[?x, ?x] @ ext" and ?new = "Suc (length s) # new"
  have "NewVersionHistory_loop ev s vh (p # ps) = Inr (s @ ?ext, vh\<lparr>items := items vh @ ?new\<rparr>)"
    using step r by simp
  moreover have "list_all (\<lambda>p. length s \<le> p \<and> p < length (s @ ?ext)) ?new"
    using n1 by (auto simp add: list_all_iff)
  moreover have "distinct ?new"
    using n1 n2 by (auto simp add: list_all_iff)
  moreover have "map (\<lambda>p. (s @ ?ext) ! p) ?new = map (\<lambda>p. s ! p) (p # ps)"
    using n3 same by (simp add: nth_append)
  ultimately show ?case by blast
qed

lemma GetFirstItem_valid:
  "items v \<noteq> [] \<Longrightarrow> valid_item ev (s ! hd (items v)) \<Longrightarrow>
   GetFirstItem ev s v = Inr (s @ [s ! hd (items v)], length s)"
  by (simp add: GetFirstItem_def hd_conv_nth Duplicate_valid)

lemma GetLastItem_valid:
  "items v \<noteq> [] \<Longrightarrow> valid_item ev (s ! last (items v)) \<Longrightarrow>
   GetLastItem ev s v = Inr (s @ [s ! last (items v)], length s)"
  by (simp add: GetLastItem_def last_conv_nth Duplicate_valid)

lemma valid_VersionHistory_append_store:
  assumes "valid_VersionHistory ev s v"
  shows "valid_VersionHistory ev (s @ t) v"
proof -
  from assms have b: "list_all (\<lambda>p. p < length s) (items v)"
    by (simp add: valid_VersionHistory_def allocated_def)
  then have "item_values (s @ t) v = item_values s v"
    by (rule item_values_append_store)
  with assms b show ?thesis
    by (auto simp add: valid_VersionHistory_def allocated_def list_all_iff)
qed

lemma valid_VersionHistory_bound:
  "valid_VersionHistory ev s v \<Longrightarrow> list_all (\<lambda>p. p < length s) (items v)"
  by (simp add: valid_VersionHistory_def allocated_def)

lemma valid_VersionHistory_hd:
  "valid_VersionHistory ev s v \<Longrightarrow> items v \<noteq> [] \<Longrightarrow>
   valid_item ev (s ! hd (items v)) \<and> hd (items v) < length s"
  by (auto simp add: valid_VersionHistory_def allocated_def item_values_def list_all_iff)

lemma valid_VersionHistory_last:
  "valid_VersionHistory ev s v \<Longrightarrow> items v \<noteq> [] \<Longrightarrow>
   valid_item ev (s ! last (items v)) \<and> last (items v) < length s"
  by (auto simp add: valid_VersionHistory_def allocated_def item_values_def list_all_iff)

lemma Duplicate_VersionHistory_valid:
  assumes "valid_VersionHistory ev s v"
  shows "\<exists>ext new. Duplicate_VersionHistory ev s v =
            Inr (s @ ext, \<lparr>branchToken = branchToken v, items = new\<rparr>)
      \<and> list_all (\<lambda>p. length s \<le> p \<and> p < length (s @ ext)) new
      \<and> distinct new
      \<and> map (\<lambda>p. (s @ ext) ! p) new = item_values s v"
proof -
  let ?vh = "\<lparr>branchToken = branchToken v, items = []\<rparr>"
  from assms have a: "list_all (\<lambda>p. p < length s) (items v)"
    "list_all (valid_item ev) (map (\<lambda>p. s ! p) (items v))"
    "strictly_increasing (item_values s ?vh @ map (\<lambda>p. s ! p) (items v))"
    by (simp_all add: valid_VersionHistory_def allocated_def item_values_def)
  have b: "list_all (\<lambda>p. p < length s) (items ?vh)" by simp
  from NewVersionHistory_loop_valid [OF a(1) b a(2) a(3)]
  show ?thesis
    by (simp add: Duplicate_VersionHistory_def NewVersionHistory_def item_values_def)
qed

lemma AddVersionHistory_success:
  assumes h: "valid_VersionHistories ev s h"
    and v: "valid_VersionHistory ev s v" and ne: "items v \<noteq> []"
    and fv: "first_version s v = first_version s (histories h ! nat (currentVersionHistoryIndex h))"
  shows "\<exists>ext new. AddVersionHistory ev s h (Some v) =
      (s @ ext,
       \<lparr>currentVersionHistoryIndex =
          (if last_version s v > last_version s (histories h ! nat (currentVersionHistoryIndex h))
           then int (length (histories h)) else currentVersionHistoryIndex h),
        histories = histories h @ [\<lparr>branchToken = branchToken v, items = new\<rparr>]\<rparr>,
       Inr (last_version s v > last_version s (histories h ! nat (currentVersionHistoryIndex h)),
            int (length (histories h))))
      \<and> list_all (\<lambda>p. length s \<le> p \<and> p < length (s @ ext)) new
      \<and> distinct new
      \<and> map (\<lambda>p. (s @ ext) ! p) new = item_values s v"
proof -
  let ?c = "histories h ! nat (currentVersionHistoryIndex h)"
  from h have idx: "0 \<le> currentVersionHistoryIndex h"
    "currentVersionHistoryIndex h < int (length (histories h))"
    by (simp_all add: valid_VersionHistories_def)
  then have cin: "?c \<in> set (histories h)" by simp
  with h have c: "valid_VersionHistory ev s ?c" and cne: "items ?c \<noteq> []"
    by (simp_all add: valid_VersionHistories_def list_all_iff)
  have get: "GetVersionHistory h (currentVersionHistoryIndex h) = Inr ?c"
    using idx by (simp add: GetVersionHistory_def)
  let ?a = "s ! hd (items v)"
  let ?s1 = "s @ [?a]"
  have f1: "GetFirstItem ev s v = Inr (?s1, length s)"
    using ne valid_VersionHistory_hd [OF v ne] by (simp add: GetFirstItem_valid)
  let ?b = "s ! hd (items ?c)"
  let ?s2 = "s @ [?a, ?b]"
  from valid_VersionHistory_hd [OF c cne] have hc: "valid_item ev ?b" "hd (items ?c) < length s"
    by simp_all
  then have "GetFirstItem ev ?s1 ?c = Inr (?s1 @ [?s1 ! hd (items ?c)], length ?s1)"
    using cne by (intro GetFirstItem_valid) (simp_all add: nth_append)
  with hc have f2: "GetFirstItem ev ?s1 ?c = Inr (?s2, Suc (length s))"
    by (simp add: nth_append)
  have cmp: "version (?s2 ! length s) = version (?s2 ! Suc (length s))"
    using fv by (simp add: first_version_def nth_append)
  from valid_VersionHistory_append_store [OF v, of "[?a, ?b]"]
  have v2: "valid_VersionHistory ev ?s2 v" .
  from Duplicate_VersionHistory_valid [OF v2] obtain ext new where
    d: "Duplicate_VersionHistory ev ?s2 v = Inr (?s2 @ ext, \<lparr>branchToken = branchToken v, items = new\<rparr>)"
    and n1: "list_all (\<lambda>p. length ?s2 \<le> p \<and> p < length (?s2 @ ext)) new"
    and n2: "distinct new"
    and n3: "map (\<lambda>p. (?s2 @ ext) ! p) new = item_values ?s2 v"
    by blast
  let ?s3 = "?s2 @ ext"
  let ?nv = "\<lparr>branchToken = branchToken v, items = new\<rparr>"
  have vals: "item_values ?s2 v = item_values s v"
    using valid_VersionHistory_bound [OF v] by (rule item_values_append_store)
  have newne: "new \<noteq> []"
    using n3 ne by (auto simp add: vals item_values_def)
  have lastnew: "?s3 ! last new = s ! last (items v)"
  proof -
    have "?s3 ! last new = last (map (\<lambda>p. ?s3 ! p) new)"
      using newne by (simp add: last_map)
    also have "\<dots> = last (item_values s v)" by (simp only: n3 vals)
    also have "\<dots> = s ! last (items v)" using ne by (simp add: item_values_def last_map)
    finally show ?thesis .
  qed
  let ?x = "s ! last (items v)"
  let ?s4 = "?s3 @ [?x]"
  have "valid_item ev (?s3 ! last (items ?nv))"
    using lastnew valid_VersionHistory_last [OF v ne] by simp
  then have "GetLastItem ev ?s3 ?nv = Inr (?s3 @ [?s3 ! last (items ?nv)], length ?s3)"
    using newne by (intro GetLastItem_valid) simp_all
  then have l1: "GetLastItem ev ?s3 ?nv = Inr (?s4, length ?s3)"
    using lastnew by simp
  from valid_VersionHistory_last [OF c cne] have lc: "valid_item ev (s ! last (items ?c))"
    "last (items ?c) < length s" by simp_all
  let ?y = "s ! last (items ?c)"
  let ?s5 = "?s4 @ [?y]"
  have s4c: "?s4 ! last (items ?c) = ?y" using lc(2) by (simp add: nth_append)
  then have "valid_item ev (?s4 ! last (items ?c))" using lc(1) by simp
  then have "GetLastItem ev ?s4 ?c = Inr (?s4 @ [?s4 ! last (items ?c)], length ?s4)"
    using cne by (intro GetLastItem_valid) simp_all
  then have l2: "GetLastItem ev ?s4 ?c = Inr (?s5, length ?s4)"
    using s4c by simp
  have vx: "version (?s5 ! length ?s3) = last_version s v"
    by (simp add: nth_append last_version_def)
  have vy: "version (?s5 ! length ?s4) = last_version s ?c"
    by (simp add: nth_append last_version_def)
  let ?ext = "[?a, ?b] @ ext @ [?x, ?y]"
  have s5: "?s5 = s @ ?ext" by simp
  have res: "AddVersionHistory ev s h (Some v) =
      (?s5,
       \<lparr>currentVersionHistoryIndex =
          (if last_version s v > last_version s ?c
           then int (length (histories h)) else currentVersionHistoryIndex h),
        histories = histories h @ [?nv]\<rparr>,
       Inr (last_version s v > last_version s ?c, int (length (histories h))))"
    unfolding AddVersionHistory_def
    by (simp only: option.case sum.case prod.case f1 get f2 cmp d l1 l2 vx vy Let_def) simp
  have m1: "list_all (\<lambda>p. length s \<le> p \<and> p < length (s @ ?ext)) new"
    using n1 by (auto simp add: list_all_iff)
  have m3: "map (\<lambda>p. (s @ ?ext) ! p) new = item_values s v"
  proof -
    have "(s @ ?ext) ! p = ?s3 ! p" if "p \<in> set new" for p
    proof -
      from that n1 have "p < length ?s3" by (simp add: list_all_iff)
      then have "(?s3 @ [?x, ?y]) ! p = ?s3 ! p" by (simp only: nth_append if_True)
      then show ?thesis by simp
    qed
    then have "map (\<lambda>p. (s @ ?ext) ! p) new = map (\<lambda>p. ?s3 ! p) new" by simp
    with n3 vals show ?thesis by simp
  qed
  from res m1 n2 m3 show ?thesis
    unfolding s5 by blast
qed

lemma ToThrift_wire_item: "ToThrift s p = wire_item (s ! p)"
  by (simp add: ToThrift_def wire_item_def)

lemma ToThrift_VersionHistory_wire:
  "ToThrift_VersionHistory s v = wire_history (branchToken v) (item_values s v)"
  by (simp add: ToThrift_VersionHistory_def wire_history_def item_values_def ToThrift_wire_item
      comp_def)

lemma NewVersionHistoryItemFromThrift_valid:
  "valid_item ev x \<Longrightarrow>
   NewVersionHistoryItemFromThrift ev s (Some (wire_item x)) = Inr (s @ [x], length s)"
  by (simp add: NewVersionHistoryItemFromThrift_def NewVersionHistoryItem_def wire_item_def
      thrift_GetEventID_def thrift_GetVersion_def valid_item_def)

lemma NewVersionHistoryFromThrift_items_valid:
  "list_all (valid_item ev) xs \<Longrightarrow>
   NewVersionHistoryFromThrift_items ev s acc (map (\<lambda>x. Some (wire_item x)) xs) =
     Inr (s @ xs, acc @ [length s..<length s + length xs])"
proof (induction xs arbitrary: s acc)
  case Nil
  then show ?case by simp
next
  case (Cons x xs)
  then have vx: "valid_item ev x" and vxs: "list_all (valid_item ev) xs" by simp_all
  have "[length s..<length s + length (x # xs)] =
      length s # [Suc (length s)..<length s + length (x # xs)]"
    by (rule upt_conv_Cons) simp
  then have u: "[length s..<length s + length (x # xs)] =
      length s # [length (s @ [x])..<length (s @ [x]) + length xs]"
    by simp
  have "NewVersionHistoryFromThrift_items ev s acc (map (\<lambda>x. Some (wire_item x)) (x # xs)) =
      NewVersionHistoryFromThrift_items ev (s @ [x]) (acc @ [length s])
        (map (\<lambda>x. Some (wire_item x)) xs)"
    using vx by (simp add: NewVersionHistoryItemFromThrift_valid)
  also have "\<dots> = Inr ((s @ [x]) @ xs, (acc @ [length s]) @
      [length (s @ [x])..<length (s @ [x]) + length xs])"
    by (rule Cons.IH [OF vxs])
  finally show ?case by (simp only: u) simp
qed

lemma NewVersionHistoryFromThrift_valid:
  assumes val: "list_all (valid_item ev) xs" and inc: "strictly_increasing xs"
  shows "\<exists>ext new. NewVersionHistoryFromThrift ev s (Some (wire_history tok xs)) =
            Inr (s @ ext, \<lparr>branchToken = tok, items = new\<rparr>)
      \<and> list_all (\<lambda>p. length s \<le> p \<and> p < length (s @ ext)) new
      \<and> distinct new
      \<and> map (\<lambda>p. (s @ ext) ! p) new = xs"
proof -
  let ?s1 = "s @ xs"
  let ?ps = "[length s..<length s + length xs]"
  let ?vh = "\<lparr>branchToken = tok, items = []\<rparr>"
  have vals: "map (\<lambda>p. ?s1 ! p) ?ps = xs"
    by (rule nth_equalityI) (simp_all add: nth_append)
  have a1: "list_all (\<lambda>p. p < length ?s1) ?ps" by (simp add: list_all_iff)
  have a2: "list_all (\<lambda>p. p < length ?s1) (items ?vh)" by simp
  have a3: "list_all (valid_item ev) (map (\<lambda>p. ?s1 ! p) ?ps)" using val by (simp only: vals)
  have a4: "strictly_increasing (item_values ?s1 ?vh @ map (\<lambda>p. ?s1 ! p) ?ps)"
    using inc by (simp only: vals) (simp add: item_values_def)
  from NewVersionHistory_loop_valid [OF a1 a2 a3 a4] obtain ext new where
    r: "NewVersionHistory_loop ev ?s1 ?vh ?ps = Inr (?s1 @ ext, ?vh\<lparr>items := items ?vh @ new\<rparr>)"
    and n1: "list_all (\<lambda>p. length ?s1 \<le> p \<and> p < length (?s1 @ ext)) new"
    and n2: "distinct new"
    and n3: "map (\<lambda>p. (?s1 @ ext) ! p) new = map (\<lambda>p. ?s1 ! p) ?ps"
    by blast
  have "NewVersionHistoryFromThrift ev s (Some (wire_history tok xs)) =
      Inr (s @ (xs @ ext), \<lparr>branchToken = tok, items = new\<rparr>)"
    using r by (simp add: NewVersionHistoryFromThrift_def wire_history_def
        NewVersionHistoryFromThrift_items_valid [OF val] NewVersionHistory_def)
  moreover have "list_all (\<lambda>p. length s \<le> p \<and> p < length (s @ (xs @ ext))) new"
    using n1 by (auto simp add: list_all_iff)
  moreover have "map (\<lambda>p. (s @ (xs @ ext)) ! p) new = xs"
    using n3 vals by simp
  ultimately show ?thesis using n2 by blast
qed

lemma first_highest_single: "first_highest [x] 0"
  by (simp add: first_highest_def)

lemma first_highest_snoc:
  assumes "first_highest lvs c"
  shows "first_highest (lvs @ [x]) (if x > lvs ! c then length lvs else c)"
proof (cases "x > lvs ! c")
  case True
  from assms have "\<forall>y\<in>set lvs. y \<le> lvs ! c" by (simp add: first_highest_def list_all_iff)
  with True have "\<forall>y\<in>set lvs. y < x" by auto
  with True show ?thesis
    by (auto simp add: first_highest_def list_all_iff nth_append)
next
  case False
  with assms show ?thesis
    by (auto simp add: first_highest_def list_all_iff nth_append)
qed

lemma first_highest_unique:
  assumes "first_highest lvs c" and "first_highest lvs c'"
  shows "c = c'"
proof (rule ccontr)
  assume ne: "c \<noteq> c'"
  have lt: False if "a < b" "first_highest lvs a" "first_highest lvs b" for a b
  proof -
    from that(3) have b: "b < length lvs" and "\<forall>y\<in>set (take b lvs). y < lvs ! b"
      by (simp_all add: first_highest_def list_all_iff)
    moreover have "lvs ! a \<in> set (take b lvs)"
      using that(1) b by (metis in_set_conv_nth length_take min.absorb2 nth_take less_imp_le_nat)
    ultimately have "lvs ! a < lvs ! b" by blast
    moreover from that(2) b have "lvs ! b \<le> lvs ! a"
      by (simp add: first_highest_def list_all_iff)
    ultimately show False by simp
  qed
  from ne consider "c < c'" | "c' < c" by linarith
  then show False using lt assms by cases blast+
qed

lemma first_version_append_store:
  "valid_VersionHistory ev s v \<Longrightarrow> items v \<noteq> [] \<Longrightarrow> first_version (s @ t) v = first_version s v"
  using valid_VersionHistory_hd [of ev s v] by (simp add: first_version_def nth_append)

lemma last_version_append_store:
  "valid_VersionHistory ev s v \<Longrightarrow> items v \<noteq> [] \<Longrightarrow> last_version (s @ t) v = last_version s v"
  using valid_VersionHistory_last [of ev s v] by (simp add: last_version_def nth_append)

lemma valid_VersionHistories_member:
  "valid_VersionHistories ev s h \<Longrightarrow> v \<in> set (histories h) \<Longrightarrow>
   valid_VersionHistory ev s v \<and> items v \<noteq> []
   \<and> first_version s v = first_version s (hd (histories h))"
  unfolding valid_VersionHistories_def list_all_iff by blast

lemma valid_VersionHistories_append_store:
  assumes "valid_VersionHistories ev s h"
  shows "valid_VersionHistories ev (s @ t) h"
proof -
  have m1: "valid_VersionHistory ev (s @ t) v" if "v \<in> set (histories h)" for v
    using valid_VersionHistories_member [OF assms that]
    by (intro valid_VersionHistory_append_store) blast
  have m2: "items v \<noteq> []" if "v \<in> set (histories h)" for v
    using valid_VersionHistories_member [OF assms that] by blast
  have m3: "first_version (s @ t) v = first_version s v" if "v \<in> set (histories h)" for v
    using valid_VersionHistories_member [OF assms that]
    by (intro first_version_append_store [of ev]) blast+
  from assms have ne: "histories h \<noteq> []" by (simp add: valid_VersionHistories_def)
  then have hd: "hd (histories h) \<in> set (histories h)" by simp
  have m4: "first_version (s @ t) v = first_version (s @ t) (hd (histories h))"
    if "v \<in> set (histories h)" for v
  proof -
    have "first_version (s @ t) v = first_version s v" using that by (rule m3)
    also have "\<dots> = first_version s (hd (histories h))"
      using valid_VersionHistories_member [OF assms that] by blast
    also have "\<dots> = first_version (s @ t) (hd (histories h))"
      using m3 [OF hd] by (rule sym)
    finally show ?thesis .
  qed
  from assms have idx: "0 \<le> currentVersionHistoryIndex h"
    "currentVersionHistoryIndex h < int (length (histories h))"
    by (simp_all add: valid_VersionHistories_def)
  show ?thesis
    unfolding valid_VersionHistories_def list_all_iff
    using ne idx m1 m2 m4 by blast
qed

lemma map_last_version_append_store:
  assumes "valid_VersionHistories ev s h"
  shows "map (last_version (s @ t)) (histories h) = map (last_version s) (histories h)"
proof (rule map_cong [OF refl])
  fix v assume "v \<in> set (histories h)"
  from valid_VersionHistories_member [OF assms this]
  show "last_version (s @ t) v = last_version s v"
    by (intro last_version_append_store [of ev]) blast+
qed

lemma map_item_values_append_store:
  assumes "valid_VersionHistories ev s h"
  shows "map (\<lambda>v. (branchToken v, item_values (s @ t) v)) (histories h) =
         map (\<lambda>v. (branchToken v, item_values s v)) (histories h)"
proof -
  have "item_values (s @ t) v = item_values s v" if "v \<in> set (histories h)" for v
    using valid_VersionHistories_member [OF assms that]
    by (intro item_values_append_store valid_VersionHistory_bound) blast
  then show ?thesis by simp
qed

lemma valid_VersionHistory_fresh:
  assumes "list_all (\<lambda>p. n \<le> p \<and> p < length s) new" and "distinct new"
    and "map (\<lambda>p. s ! p) new = xs"
    and "list_all (valid_item ev) xs" and "strictly_increasing xs"
  shows "valid_VersionHistory ev s \<lparr>branchToken = tok, items = new\<rparr>"
  using assms
  by (auto simp add: valid_VersionHistory_def allocated_def item_values_def list_all_iff)

lemma AddVersionHistory_keeps_invariant:
  assumes inv: "valid_VersionHistories ev s vhs"
    and fh: "first_highest (map (last_version s) (histories vhs)) (nat (currentVersionHistoryIndex vhs))"
    and val: "list_all (valid_item ev) xs" and inc: "strictly_increasing xs" and ne: "xs \<noteq> []"
    and fv: "version (hd xs) = first_version s (hd (histories vhs))"
    and new: "list_all (\<lambda>p. n \<le> p \<and> p < length s) new" "distinct new" "map (\<lambda>p. s ! p) new = xs"
  shows "\<exists>ext vhs'. (\<exists>r. AddVersionHistory ev s vhs (Some \<lparr>branchToken = tok, items = new\<rparr>) =
              (s @ ext, vhs', Inr r))
      \<and> valid_VersionHistories ev (s @ ext) vhs'
      \<and> first_highest (map (last_version (s @ ext)) (histories vhs'))
            (nat (currentVersionHistoryIndex vhs'))
      \<and> map (\<lambda>v. (branchToken v, item_values (s @ ext) v)) (histories vhs') =
          map (\<lambda>v. (branchToken v, item_values s v)) (histories vhs) @ [(tok, xs)]
      \<and> first_version (s @ ext) (hd (histories vhs')) = first_version s (hd (histories vhs))"
proof -
  let ?v = "\<lparr>branchToken = tok, items = new\<rparr>"
  let ?hs = "histories vhs"
  let ?c = "?hs ! nat (currentVersionHistoryIndex vhs)"
  have v: "valid_VersionHistory ev s ?v"
    using new val inc by (rule valid_VersionHistory_fresh)
  have vne: "items ?v \<noteq> []" using new(3) ne by auto
  have ivs: "item_values s ?v = xs" using new(3) by (simp add: item_values_def)
  from inv have idx: "0 \<le> currentVersionHistoryIndex vhs"
    "currentVersionHistoryIndex vhs < int (length ?hs)" and hne: "?hs \<noteq> []"
    by (simp_all add: valid_VersionHistories_def)
  then have cin: "?c \<in> set ?hs" by simp
  have "hd new \<in> set new" using vne by simp
  have "first_version s ?v = version (hd (map (\<lambda>p. s ! p) new))"
    using vne by (simp add: first_version_def hd_map)
  then have fvv: "first_version s ?v = version (hd xs)" by (simp only: new(3))
  have fvc: "first_version s ?v = first_version s ?c"
    using valid_VersionHistories_member [OF inv cin] fvv fv by simp
  from AddVersionHistory_success [OF inv v vne fvc] obtain ext new2 where
    r: "AddVersionHistory ev s vhs (Some ?v) =
      (s @ ext,
       \<lparr>currentVersionHistoryIndex =
          (if last_version s ?v > last_version s ?c
           then int (length ?hs) else currentVersionHistoryIndex vhs),
        histories = ?hs @ [\<lparr>branchToken = branchToken ?v, items = new2\<rparr>]\<rparr>,
       Inr (last_version s ?v > last_version s ?c, int (length ?hs)))"
    and n1: "list_all (\<lambda>p. length s \<le> p \<and> p < length (s @ ext)) new2"
    and n2: "distinct new2"
    and n3: "map (\<lambda>p. (s @ ext) ! p) new2 = item_values s ?v"
    by blast
  let ?s' = "s @ ext"
  let ?nv = "\<lparr>branchToken = tok, items = new2\<rparr>"
  let ?idx = "if last_version s ?v > last_version s ?c
           then int (length ?hs) else currentVersionHistoryIndex vhs"
  let ?vhs' = "\<lparr>currentVersionHistoryIndex = ?idx, histories = ?hs @ [?nv]\<rparr>"
  have n3': "map (\<lambda>p. ?s' ! p) new2 = xs" using n3 ivs by simp
  have nv: "valid_VersionHistory ev ?s' ?nv"
    using n1 n2 n3' val inc by (rule valid_VersionHistory_fresh)
  have nvne: "items ?nv \<noteq> []" using n3' ne by auto
  have nvals: "item_values ?s' ?nv = xs" using n3' by (simp add: item_values_def)
  have inv': "valid_VersionHistories ev ?s' vhs"
    using inv by (rule valid_VersionHistories_append_store)
  have hd': "hd (?hs @ [?nv]) = hd ?hs" using hne by simp
  have fhd: "first_version ?s' (hd ?hs) = first_version s (hd ?hs)"
    using valid_VersionHistories_member [OF inv, of "hd ?hs"] hne
    by (intro first_version_append_store [of ev]) simp_all
  have "first_version ?s' ?nv = version (hd (map (\<lambda>p. ?s' ! p) new2))"
    using nvne by (simp add: first_version_def hd_map)
  then have fnv: "first_version ?s' ?nv = first_version ?s' (hd ?hs)"
    using fv fhd by (simp only: n3')
  have lnv: "last_version ?s' ?nv = last_version s ?v"
  proof -
    have "last_version ?s' ?nv = version (last (map (\<lambda>p. ?s' ! p) new2))"
      using nvne by (simp add: last_version_def last_map)
    also have "\<dots> = version (last (map (\<lambda>p. s ! p) new))" by (simp only: n3' new(3))
    also have "\<dots> = last_version s ?v" using vne by (simp add: last_version_def last_map)
    finally show ?thesis .
  qed
  have valid': "valid_VersionHistories ev ?s' ?vhs'"
  proof -
    have a: "valid_VersionHistory ev ?s' u \<and> items u \<noteq> []
        \<and> first_version ?s' u = first_version ?s' (hd ?hs)" if "u \<in> set (?hs @ [?nv])" for u
    proof (cases "u = ?nv")
      case True
      with nv nvne fnv show ?thesis by simp
    next
      case False
      with that have "u \<in> set ?hs" by simp
      from valid_VersionHistories_member [OF inv' this] show ?thesis .
    qed
    have b: "0 \<le> ?idx" "?idx < int (length (?hs @ [?nv]))" using idx by auto
    show ?thesis
      unfolding valid_VersionHistories_def list_all_iff
      using a b hd' by (simp del: set_append)
  qed
  have lvs: "map (last_version ?s') (?hs @ [?nv]) = map (last_version s) ?hs @ [last_version s ?v]"
    using map_last_version_append_store [OF inv, of ext] lnv by simp
  have cnth: "map (last_version s) ?hs ! nat (currentVersionHistoryIndex vhs) = last_version s ?c"
    using idx by simp
  have nidx: "nat ?idx = (if last_version s ?v > map (last_version s) ?hs ! nat (currentVersionHistoryIndex vhs)
      then length (map (last_version s) ?hs) else nat (currentVersionHistoryIndex vhs))"
    by (simp add: cnth)
  have fh': "first_highest (map (last_version ?s') (histories ?vhs'))
            (nat (currentVersionHistoryIndex ?vhs'))"
    using first_highest_snoc [OF fh, of "last_version s ?v"]
    by (simp only: VersionHistories.simps lvs nidx)
  have cont: "map (\<lambda>v. (branchToken v, item_values ?s' v)) (histories ?vhs') =
          map (\<lambda>v. (branchToken v, item_values s v)) ?hs @ [(tok, xs)]"
    using map_item_values_append_store [OF inv, of ext] nvals by simp
  have fhd': "first_version ?s' (hd (histories ?vhs')) = first_version s (hd ?hs)"
    using hd' fhd by simp
  from r have "\<exists>r. AddVersionHistory ev s vhs (Some ?v) = (?s', ?vhs', Inr r)" by simp
  with valid' fh' cont fhd' show ?thesis by blast
qed

lemma NewVersionHistoriesFromThrift_loop_valid:
  "valid_VersionHistories ev s vhs \<Longrightarrow>
   first_highest (map (last_version s) (histories vhs)) (nat (currentVersionHistoryIndex vhs)) \<Longrightarrow>
   list_all (\<lambda>(tok, xs). list_all (valid_item ev) xs \<and> strictly_increasing xs \<and> xs \<noteq> []
        \<and> version (hd xs) = first_version s (hd (histories vhs))) rest \<Longrightarrow>
   \<exists>ext vhs'. NewVersionHistoriesFromThrift_loop ev s vhs
          (map (\<lambda>(tok, xs). Some (wire_history tok xs)) rest) = Inr (s @ ext, vhs')
      \<and> valid_VersionHistories ev (s @ ext) vhs'
      \<and> first_highest (map (last_version (s @ ext)) (histories vhs'))
            (nat (currentVersionHistoryIndex vhs'))
      \<and> map (\<lambda>v. (branchToken v, item_values (s @ ext) v)) (histories vhs') =
          map (\<lambda>v. (branchToken v, item_values s v)) (histories vhs) @ rest"
proof (induction rest arbitrary: s vhs)
  case Nil
  show ?case
    by (rule exI [of _ "[]"], rule exI [of _ vhs]) (use Nil in simp)
next
  case (Cons a rest)
  obtain tok xs where a: "a = (tok, xs)" by (cases a)
  from Cons.prems(3) a have val: "list_all (valid_item ev) xs" and inc: "strictly_increasing xs"
    and ne: "xs \<noteq> []" and fv: "version (hd xs) = first_version s (hd (histories vhs))"
    and rest: "list_all (\<lambda>(tok, xs). list_all (valid_item ev) xs \<and> strictly_increasing xs \<and> xs \<noteq> []
        \<and> version (hd xs) = first_version s (hd (histories vhs))) rest"
    by simp_all
  from NewVersionHistoryFromThrift_valid [OF val inc, of s tok] obtain e1 new where
    d: "NewVersionHistoryFromThrift ev s (Some (wire_history tok xs)) =
            Inr (s @ e1, \<lparr>branchToken = tok, items = new\<rparr>)"
    and n1: "list_all (\<lambda>p. length s \<le> p \<and> p < length (s @ e1)) new"
    and n2: "distinct new"
    and n3: "map (\<lambda>p. (s @ e1) ! p) new = xs"
    by blast
  let ?s1 = "s @ e1"
  have inv1: "valid_VersionHistories ev ?s1 vhs"
    using Cons.prems(1) by (rule valid_VersionHistories_append_store)
  have fh1: "first_highest (map (last_version ?s1) (histories vhs)) (nat (currentVersionHistoryIndex vhs))"
    using Cons.prems(2) by (simp only: map_last_version_append_store [OF Cons.prems(1)])
  from Cons.prems(1) have hne: "histories vhs \<noteq> []" by (simp add: valid_VersionHistories_def)
  have fhd: "first_version ?s1 (hd (histories vhs)) = first_version s (hd (histories vhs))"
    using valid_VersionHistories_member [OF Cons.prems(1), of "hd (histories vhs)"] hne
    by (intro first_version_append_store [of ev]) simp_all
  have fv1: "version (hd xs) = first_version ?s1 (hd (histories vhs))"
    using fv fhd by simp
  from AddVersionHistory_keeps_invariant [OF inv1 fh1 val inc ne fv1 n1 n2 n3, of tok]
  obtain e2 vhs1 r where
    add: "AddVersionHistory ev ?s1 vhs (Some \<lparr>branchToken = tok, items = new\<rparr>) =
              (?s1 @ e2, vhs1, Inr r)"
    and inv2: "valid_VersionHistories ev (?s1 @ e2) vhs1"
    and fh2: "first_highest (map (last_version (?s1 @ e2)) (histories vhs1))
            (nat (currentVersionHistoryIndex vhs1))"
    and cont2: "map (\<lambda>v. (branchToken v, item_values (?s1 @ e2) v)) (histories vhs1) =
          map (\<lambda>v. (branchToken v, item_values ?s1 v)) (histories vhs) @ [(tok, xs)]"
    and fhd2: "first_version (?s1 @ e2) (hd (histories vhs1)) = first_version ?s1 (hd (histories vhs))"
    by blast
  let ?s2 = "?s1 @ e2"
  have rest2: "list_all (\<lambda>(tok, xs). list_all (valid_item ev) xs \<and> strictly_increasing xs \<and> xs \<noteq> []
        \<and> version (hd xs) = first_version ?s2 (hd (histories vhs1))) rest"
    using rest by (simp only: fhd2 fhd)
  from Cons.IH [OF inv2 fh2 rest2] obtain e3 vhs' where
    l: "NewVersionHistoriesFromThrift_loop ev ?s2 vhs1
          (map (\<lambda>(tok, xs). Some (wire_history tok xs)) rest) = Inr (?s2 @ e3, vhs')"
    and inv3: "valid_VersionHistories ev (?s2 @ e3) vhs'"
    and fh3: "first_highest (map (last_version (?s2 @ e3)) (histories vhs'))
            (nat (currentVersionHistoryIndex vhs'))"
    and cont3: "map (\<lambda>v. (branchToken v, item_values (?s2 @ e3) v)) (histories vhs') =
          map (\<lambda>v. (branchToken v, item_values ?s2 v)) (histories vhs1) @ rest"
    by blast
  let ?ext = "e1 @ e2 @ e3"
  have s3: "?s2 @ e3 = s @ ?ext" by simp
  have step: "NewVersionHistoriesFromThrift_loop ev s vhs
          (map (\<lambda>(tok, xs). Some (wire_history tok xs)) (a # rest)) = Inr (s @ ?ext, vhs')"
    using l by (simp add: a d add)
  have cont: "map (\<lambda>v. (branchToken v, item_values (s @ ?ext) v)) (histories vhs') =
          map (\<lambda>v. (branchToken v, item_values s v)) (histories vhs) @ a # rest"
    using cont3 cont2 map_item_values_append_store [OF Cons.prems(1), of e1]
    by (simp add: a)
  from step inv3 fh3 cont show ?case
    unfolding s3 by blast
qed

lemma sint_int32:
  assumes "0 \<le> i" and "i < 2 ^ 31"
  shows "sint (word_of_int i :: 32 word) = i"
proof -
  have "sint (word_of_int i :: 32 word) = signed_take_bit 31 i"
    by (simp add: signed_of_int)
  also have "\<dots> = i"
    using assms by (intro signed_take_bit_int_eq_self) simp_all
  finally show ?thesis .
qed

lemma Equals_VersionHistory_values:
  assumes "branchToken v = branchToken v'" and "item_values s v = item_values s v'"
  shows "Equals_VersionHistory s v v'"
proof -
  from assms(2) have len: "length (items v) = length (items v')"
    unfolding item_values_def by (rule map_eq_imp_length_eq)
  have "Equals s p q" if "(p, q) \<in> set (zip (items v) (items v'))" for p q
  proof -
    from that obtain i where i: "i < length (items v)" "p = items v ! i" "q = items v' ! i"
      using len by (auto simp add: set_zip)
    from assms(2) have "map (\<lambda>p. s ! p) (items v) ! i = map (\<lambda>p. s ! p) (items v') ! i"
      by (simp add: item_values_def)
    with i len have "s ! p = s ! q" by simp
    then show ?thesis by (simp add: Equals_def)
  qed
  with assms(1) len show ?thesis
    by (auto simp add: Equals_VersionHistory_def list_all_iff)
qed

lemma NewVersionHistoryFromThrift_roundtrip:
  assumes v: "valid_VersionHistory ev s v"
  shows "\<exists>s' v'. NewVersionHistoryFromThrift ev s (Some (ToThrift_VersionHistory s v)) = Inr (s', v')
      \<and> take (length s) s' = s \<and> Equals_VersionHistory s' v v'
      \<and> branchToken v' = branchToken v \<and> item_values s' v' = item_values s v"
proof -
  from v have val: "list_all (valid_item ev) (item_values s v)"
    and inc: "strictly_increasing (item_values s v)"
    by (simp_all add: valid_VersionHistory_def)
  from NewVersionHistoryFromThrift_valid [OF val inc, of s "branchToken v"] obtain ext new where
    d: "NewVersionHistoryFromThrift ev s (Some (wire_history (branchToken v) (item_values s v))) =
            Inr (s @ ext, \<lparr>branchToken = branchToken v, items = new\<rparr>)"
    and n3: "map (\<lambda>p. (s @ ext) ! p) new = item_values s v"
    by blast
  let ?v' = "\<lparr>branchToken = branchToken v, items = new\<rparr>"
  have a: "item_values (s @ ext) ?v' = item_values s v" using n3 by (simp add: item_values_def)
  have b: "item_values (s @ ext) v = item_values s v"
    using valid_VersionHistory_bound [OF v] by (rule item_values_append_store)
  have "Equals_VersionHistory (s @ ext) v ?v'"
    by (rule Equals_VersionHistory_values) (simp_all add: a b)
  with d a show ?thesis
    by (simp add: ToThrift_VersionHistory_wire)
qed

lemma NewVersionHistoriesFromThrift_decode:
  assumes inv: "valid_VersionHistories ev s h" and len: "length (histories h) \<le> 2 ^ 31"
  shows "\<exists>ext vhs'. NewVersionHistoriesFromThrift ev s (Some (ToThrift_VersionHistories s h)) =
          (if currentVersionHistoryIndex h \<noteq> currentVersionHistoryIndex vhs'
           then Inl (Panic (Text ''unable to initialize version histories: current index mismatch''))
           else Inr (s @ ext, vhs'))
      \<and> valid_VersionHistories ev (s @ ext) vhs'
      \<and> first_highest (map (last_version (s @ ext)) (histories vhs'))
            (nat (currentVersionHistoryIndex vhs'))
      \<and> map (\<lambda>v. (branchToken v, item_values (s @ ext) v)) (histories vhs') =
          map (\<lambda>v. (branchToken v, item_values s v)) (histories h)"
proof -
  from inv have hne: "histories h \<noteq> []" and idx: "0 \<le> currentVersionHistoryIndex h"
    "currentVersionHistoryIndex h < int (length (histories h))"
    by (simp_all add: valid_VersionHistories_def)
  then obtain v0 hs where hs: "histories h = v0 # hs" by (cases "histories h") auto
  let ?tok0 = "branchToken v0" and ?xs0 = "item_values s v0"
  let ?rest = "map (\<lambda>v. (branchToken v, item_values s v)) hs"
  have mem: "valid_VersionHistory ev s v \<and> items v \<noteq> [] \<and> first_version s v = first_version s v0"
    if "v \<in> set (v0 # hs)" for v
    using valid_VersionHistories_member [OF inv, of v] that hs by simp
  from mem [of v0] have v0: "valid_VersionHistory ev s v0" and v0ne: "items v0 \<noteq> []" by simp_all
  then have val0: "list_all (valid_item ev) ?xs0" and inc0: "strictly_increasing ?xs0"
    and ne0: "?xs0 \<noteq> []"
    by (simp_all add: valid_VersionHistory_def item_values_def)
  from NewVersionHistoryFromThrift_valid [OF val0 inc0, of s ?tok0] obtain e0 new0 where
    d: "NewVersionHistoryFromThrift ev s (Some (wire_history ?tok0 ?xs0)) =
            Inr (s @ e0, \<lparr>branchToken = ?tok0, items = new0\<rparr>)"
    and n1: "list_all (\<lambda>p. length s \<le> p \<and> p < length (s @ e0)) new0"
    and n2: "distinct new0"
    and n3: "map (\<lambda>p. (s @ e0) ! p) new0 = ?xs0"
    by blast
  let ?s0 = "s @ e0"
  let ?nv0 = "\<lparr>branchToken = ?tok0, items = new0\<rparr>"
  let ?vhs0 = "\<lparr>currentVersionHistoryIndex = 0, histories = [?nv0]\<rparr>"
  have nv0: "valid_VersionHistory ev ?s0 ?nv0"
    using n1 n2 n3 val0 inc0 by (rule valid_VersionHistory_fresh)
  have nv0ne: "items ?nv0 \<noteq> []" using n3 ne0 by auto
  have inv0: "valid_VersionHistories ev ?s0 ?vhs0"
    using nv0 nv0ne by (simp add: valid_VersionHistories_def)
  have fh0: "first_highest (map (last_version ?s0) (histories ?vhs0))
      (nat (currentVersionHistoryIndex ?vhs0))"
    by (simp add: first_highest_single)
  have "first_version ?s0 ?nv0 = version (hd (map (\<lambda>p. ?s0 ! p) new0))"
    using nv0ne by (simp add: first_version_def hd_map)
  also have "\<dots> = version (hd ?xs0)" by (simp only: n3)
  also have "\<dots> = first_version s v0"
    using v0ne by (simp add: first_version_def item_values_def hd_map)
  finally have f0: "first_version ?s0 ?nv0 = first_version s v0" .
  have rest: "list_all (\<lambda>(tok, xs). list_all (valid_item ev) xs \<and> strictly_increasing xs \<and> xs \<noteq> []
        \<and> version (hd xs) = first_version ?s0 (hd (histories ?vhs0))) ?rest"
  proof -
    have "list_all (valid_item ev) (item_values s v) \<and> strictly_increasing (item_values s v)
        \<and> item_values s v \<noteq> [] \<and> version (hd (item_values s v)) = first_version ?s0 ?nv0"
      if "v \<in> set hs" for v
    proof -
      from mem [of v] that have a: "valid_VersionHistory ev s v" "items v \<noteq> []"
        "first_version s v = first_version s v0" by simp_all
      have "version (hd (item_values s v)) = first_version s v"
        using a(2) by (simp add: first_version_def item_values_def hd_map)
      with a f0 show ?thesis
        by (simp add: valid_VersionHistory_def item_values_def)
    qed
    then show ?thesis by (simp add: list_all_iff)
  qed
  from NewVersionHistoriesFromThrift_loop_valid [OF inv0 fh0 rest] obtain ext vhs' where
    l: "NewVersionHistoriesFromThrift_loop ev ?s0 ?vhs0
          (map (\<lambda>(tok, xs). Some (wire_history tok xs)) ?rest) = Inr (?s0 @ ext, vhs')"
    and inv': "valid_VersionHistories ev (?s0 @ ext) vhs'"
    and fh': "first_highest (map (last_version (?s0 @ ext)) (histories vhs'))
            (nat (currentVersionHistoryIndex vhs'))"
    and cont': "map (\<lambda>v. (branchToken v, item_values (?s0 @ ext) v)) (histories vhs') =
          map (\<lambda>v. (branchToken v, item_values ?s0 v)) (histories ?vhs0) @ ?rest"
    by blast
  have wire: "Histories (ToThrift_VersionHistories s h) =
      Some (wire_history ?tok0 ?xs0) # map (\<lambda>(tok, xs). Some (wire_history tok xs)) ?rest"
    by (simp add: ToThrift_VersionHistories_def hs ToThrift_VersionHistory_wire comp_def)
  have "currentVersionHistoryIndex h < 2 ^ 31" using idx(2) len by simp
  with idx(1) have si: "sint (thrift_GetCurrentVersionHistoryIndex (ToThrift_VersionHistories s h)) =
      currentVersionHistoryIndex h"
    by (simp add: thrift_GetCurrentVersionHistoryIndex_def ToThrift_VersionHistories_def sint_int32)
  have res: "NewVersionHistoriesFromThrift ev s (Some (ToThrift_VersionHistories s h)) =
          (if currentVersionHistoryIndex h \<noteq> currentVersionHistoryIndex vhs'
           then Inl (Panic (Text ''unable to initialize version histories: current index mismatch''))
           else Inr (s @ (e0 @ ext), vhs'))"
    unfolding NewVersionHistoriesFromThrift_def
    using l by (simp add: wire si d NewVersionHistories_def Let_def)
  have vals0: "item_values ?s0 ?nv0 = ?xs0" using n3 by (simp add: item_values_def)
  have cont: "map (\<lambda>v. (branchToken v, item_values (s @ (e0 @ ext)) v)) (histories vhs') =
          map (\<lambda>v. (branchToken v, item_values s v)) (histories h)"
    using cont' vals0 by (simp add: hs)
  from res inv' fh' cont show ?thesis
    by (intro exI [of _ "e0 @ ext"] exI [of _ vhs']) simp
qed

lemma last_version_item_values:
  "items v \<noteq> [] \<Longrightarrow> last_version s v = version (last (item_values s v))"
  by (simp add: last_version_def item_values_def last_map)

lemma map_last_version_contents:
  assumes c: "map (\<lambda>v. (branchToken v, item_values s' v)) hs' =
          map (\<lambda>v. (branchToken v, item_values s v)) hs"
    and ne: "\<forall>v\<in>set hs. items v \<noteq> []" and ne': "\<forall>v\<in>set hs'. items v \<noteq> []"
  shows "map (last_version s') hs' = map (last_version s) hs"
proof -
  have "map (last_version s') hs' =
      map (\<lambda>c. version (last (snd c))) (map (\<lambda>v. (branchToken v, item_values s' v)) hs')"
    using ne' by (simp add: last_version_item_values comp_def)
  also have "\<dots> = map (\<lambda>c. version (last (snd c))) (map (\<lambda>v. (branchToken v, item_values s v)) hs)"
    by (simp only: c)
  also have "\<dots> = map (last_version s) hs"
    using ne by (simp add: last_version_item_values comp_def)
  finally show ?thesis .
qed

lemma list_all2_Equals_contents:
  assumes c: "map (\<lambda>v. (branchToken v, item_values s' v)) hs' =
          map (\<lambda>v. (branchToken v, item_values s' v)) hs"
  shows "list_all2 (Equals_VersionHistory s') hs hs'"
proof -
  from c have len: "length hs' = length hs" by (rule map_eq_imp_length_eq)
  have "Equals_VersionHistory s' (hs ! i) (hs' ! i)" if "i < length hs" for i
  proof -
    from c have "map (\<lambda>v. (branchToken v, item_values s' v)) hs' ! i =
          map (\<lambda>v. (branchToken v, item_values s' v)) hs ! i" by simp
    with that len have "branchToken (hs' ! i) = branchToken (hs ! i)"
      "item_values s' (hs' ! i) = item_values s' (hs ! i)" by simp_all
    then show ?thesis by (intro Equals_VersionHistory_values) simp_all
  qed
  with len show ?thesis by (simp add: list_all2_conv_all_nth)
qed

lemma NewVersionHistoriesFromThrift_roundtrip:
  assumes inv: "valid_VersionHistories ev s h" and len: "length (histories h) \<le> 2 ^ 31"
  shows "(first_highest (map (last_version s) (histories h)) (nat (currentVersionHistoryIndex h)) \<longrightarrow>
            (\<exists>s' h'. NewVersionHistoriesFromThrift ev s (Some (ToThrift_VersionHistories s h)) = Inr (s', h')
               \<and> take (length s) s' = s
               \<and> currentVersionHistoryIndex h' = currentVersionHistoryIndex h
               \<and> list_all2 (Equals_VersionHistory s') (histories h) (histories h')))
       \<and> (\<not> first_highest (map (last_version s) (histories h)) (nat (currentVersionHistoryIndex h)) \<longrightarrow>
            NewVersionHistoriesFromThrift ev s (Some (ToThrift_VersionHistories s h)) =
              Inl (Panic (Text ''unable to initialize version histories: current index mismatch'')))"
proof -
  from NewVersionHistoriesFromThrift_decode [OF inv len] obtain ext vhs' where
    res: "NewVersionHistoriesFromThrift ev s (Some (ToThrift_VersionHistories s h)) =
          (if currentVersionHistoryIndex h \<noteq> currentVersionHistoryIndex vhs'
           then Inl (Panic (Text ''unable to initialize version histories: current index mismatch''))
           else Inr (s @ ext, vhs'))"
    and inv': "valid_VersionHistories ev (s @ ext) vhs'"
    and fh': "first_highest (map (last_version (s @ ext)) (histories vhs'))
            (nat (currentVersionHistoryIndex vhs'))"
    and cont: "map (\<lambda>v. (branchToken v, item_values (s @ ext) v)) (histories vhs') =
          map (\<lambda>v. (branchToken v, item_values s v)) (histories h)"
    by blast
  let ?lvs = "map (last_version s) (histories h)"
  have ne: "\<forall>v\<in>set (histories h). items v \<noteq> []"
    using valid_VersionHistories_member [OF inv] by blast
  have ne': "\<forall>v\<in>set (histories vhs'). items v \<noteq> []"
    using valid_VersionHistories_member [OF inv'] by blast
  have lvs: "map (last_version (s @ ext)) (histories vhs') = ?lvs"
    using cont ne ne' by (rule map_last_version_contents)
  from fh' have fh: "first_highest ?lvs (nat (currentVersionHistoryIndex vhs'))"
    by (simp only: lvs)
  from inv inv' have pos: "0 \<le> currentVersionHistoryIndex h" "0 \<le> currentVersionHistoryIndex vhs'"
    by (simp_all add: valid_VersionHistories_def)
  have cont2: "map (\<lambda>v. (branchToken v, item_values (s @ ext) v)) (histories vhs') =
          map (\<lambda>v. (branchToken v, item_values (s @ ext) v)) (histories h)"
    using cont map_item_values_append_store [OF inv, of ext] by simp
  have eq: "list_all2 (Equals_VersionHistory (s @ ext)) (histories h) (histories vhs')"
    using cont2 by (rule list_all2_Equals_contents)
  show ?thesis
  proof (cases "first_highest ?lvs (nat (currentVersionHistoryIndex h))")
    case True
    from first_highest_unique [OF True fh] pos
    have same: "currentVersionHistoryIndex h = currentVersionHistoryIndex vhs'" by simp
    with res have "NewVersionHistoriesFromThrift ev s (Some (ToThrift_VersionHistories s h)) =
        Inr (s @ ext, vhs')" by simp
    with same eq True show ?thesis by simp
  next
    case False
    with fh have "currentVersionHistoryIndex h \<noteq> currentVersionHistoryIndex vhs'" by auto
    with res False show ?thesis by simp
  qed
qed

text \<open>
  C5. Round trip through the wire form. For every valid \<open>VersionHistory\<close>, decoding its
  wire form succeeds and yields a history that \<open>Equals\<close> the original: same branch
  token, same item values. For every valid \<open>VersionHistories\<close> with at most \<open>2^31\<close>
  histories: when the current history is the first one with the highest last-item version,
  decoding succeeds and yields the same current index and, index by index, histories that
  \<open>Equals\<close> the originals; otherwise decoding panics with "current index mismatch".
  Decoding changes no item that was allocated before.
\<close>

theorem thrift_round_trip:
  "(valid_VersionHistory ev s v \<longrightarrow>
      (\<exists>s' v'. NewVersionHistoryFromThrift ev s (Some (ToThrift_VersionHistory s v)) = Inr (s', v')
         \<and> take (length s) s' = s \<and> Equals_VersionHistory s' v v'
         \<and> branchToken v' = branchToken v \<and> item_values s' v' = item_values s v))
 \<and> (valid_VersionHistories ev s h \<and> length (histories h) \<le> 2 ^ 31 \<longrightarrow>
      (first_highest (map (last_version s) (histories h)) (nat (currentVersionHistoryIndex h)) \<longrightarrow>
         (\<exists>s' h'. NewVersionHistoriesFromThrift ev s (Some (ToThrift_VersionHistories s h)) = Inr (s', h')
            \<and> take (length s) s' = s
            \<and> currentVersionHistoryIndex h' = currentVersionHistoryIndex h
            \<and> list_all2 (Equals_VersionHistory s') (histories h) (histories h')))
    \<and> (\<not> first_highest (map (last_version s) (histories h)) (nat (currentVersionHistoryIndex h)) \<longrightarrow>
         NewVersionHistoriesFromThrift ev s (Some (ToThrift_VersionHistories s h)) =
           Inl (Panic (Text ''unable to initialize version histories: current index mismatch''))))"
  using NewVersionHistoryFromThrift_roundtrip [of ev s v]
    NewVersionHistoriesFromThrift_roundtrip [of ev s h]
  by blast

text \<open>
  Decoding recomputes the current index by adding the histories one after the other, and
  panics when the index on the wire is another one. A valid \<open>VersionHistories\<close> whose
  current index was set to a history that does not have the highest last version (as
  \<open>SetCurrentVersionHistoryIndex\<close> allows) does not survive the round trip. Starting from
  the single history \<open>[(3,0)]\<close>, \<open>AddVersionHistory\<close> of \<open>[(3,0),(5,1)]\<close> makes the
  new history current (index 1), and \<open>SetCurrentVersionHistoryIndex\<close> sets the index back
  to 0; the result is valid, but decoding its wire form selects index 1 and panics.
\<close>

theorem thrift_round_trip_counterexample:
  "AddVersionHistory (- 24)
     [\<lparr>eventID = 3, version = 0\<rparr>, \<lparr>eventID = 3, version = 0\<rparr>, \<lparr>eventID = 5, version = 1\<rparr>]
     \<lparr>currentVersionHistoryIndex = 0, histories = [\<lparr>branchToken = [1], items = [0]\<rparr>]\<rparr>
     (Some \<lparr>branchToken = [2], items = [1, 2]\<rparr>)
     = ([\<lparr>eventID = 3, version = 0\<rparr>, \<lparr>eventID = 3, version = 0\<rparr>, \<lparr>eventID = 5, version = 1\<rparr>,
         \<lparr>eventID = 3, version = 0\<rparr>, \<lparr>eventID = 3, version = 0\<rparr>,
         \<lparr>eventID = 3, version = 0\<rparr>, \<lparr>eventID = 3, version = 0\<rparr>,
         \<lparr>eventID = 5, version = 1\<rparr>, \<lparr>eventID = 5, version = 1\<rparr>,
         \<lparr>eventID = 5, version = 1\<rparr>, \<lparr>eventID = 3, version = 0\<rparr>],
        \<lparr>currentVersionHistoryIndex = 1,
         histories = [\<lparr>branchToken = [1], items = [0]\<rparr>, \<lparr>branchToken = [2], items = [6, 8]\<rparr>]\<rparr>,
        Inr (True, 1))
   \<and> SetCurrentVersionHistoryIndex
        \<lparr>currentVersionHistoryIndex = 1,
         histories = [\<lparr>branchToken = [1], items = [0]\<rparr>, \<lparr>branchToken = [2], items = [6, 8]\<rparr>]\<rparr> 0
     = Inr \<lparr>currentVersionHistoryIndex = 0,
         histories = [\<lparr>branchToken = [1], items = [0]\<rparr>, \<lparr>branchToken = [2], items = [6, 8]\<rparr>]\<rparr>
   \<and> valid_VersionHistories (- 24)
        [\<lparr>eventID = 3, version = 0\<rparr>, \<lparr>eventID = 3, version = 0\<rparr>, \<lparr>eventID = 5, version = 1\<rparr>,
         \<lparr>eventID = 3, version = 0\<rparr>, \<lparr>eventID = 3, version = 0\<rparr>,
         \<lparr>eventID = 3, version = 0\<rparr>, \<lparr>eventID = 3, version = 0\<rparr>,
         \<lparr>eventID = 5, version = 1\<rparr>, \<lparr>eventID = 5, version = 1\<rparr>,
         \<lparr>eventID = 5, version = 1\<rparr>, \<lparr>eventID = 3, version = 0\<rparr>]
        \<lparr>currentVersionHistoryIndex = 0,
         histories = [\<lparr>branchToken = [1], items = [0]\<rparr>, \<lparr>branchToken = [2], items = [6, 8]\<rparr>]\<rparr>
   \<and> NewVersionHistoriesFromThrift (- 24)
        [\<lparr>eventID = 3, version = 0\<rparr>, \<lparr>eventID = 3, version = 0\<rparr>, \<lparr>eventID = 5, version = 1\<rparr>,
         \<lparr>eventID = 3, version = 0\<rparr>, \<lparr>eventID = 3, version = 0\<rparr>,
         \<lparr>eventID = 3, version = 0\<rparr>, \<lparr>eventID = 3, version = 0\<rparr>,
         \<lparr>eventID = 5, version = 1\<rparr>, \<lparr>eventID = 5, version = 1\<rparr>,
         \<lparr>eventID = 5, version = 1\<rparr>, \<lparr>eventID = 3, version = 0\<rparr>]
        (Some (ToThrift_VersionHistories
           [\<lparr>eventID = 3, version = 0\<rparr>, \<lparr>eventID = 3, version = 0\<rparr>, \<lparr>eventID = 5, version = 1\<rparr>,
            \<lparr>eventID = 3, version = 0\<rparr>, \<lparr>eventID = 3, version = 0\<rparr>,
            \<lparr>eventID = 3, version = 0\<rparr>, \<lparr>eventID = 3, version = 0\<rparr>,
            \<lparr>eventID = 5, version = 1\<rparr>, \<lparr>eventID = 5, version = 1\<rparr>,
            \<lparr>eventID = 5, version = 1\<rparr>, \<lparr>eventID = 3, version = 0\<rparr>]
           \<lparr>currentVersionHistoryIndex = 0,
            histories = [\<lparr>branchToken = [1], items = [0]\<rparr>,
                         \<lparr>branchToken = [2], items = [6, 8]\<rparr>]\<rparr>))
     = Inl (Panic (Text ''unable to initialize version histories: current index mismatch''))"
  by (simp add: valid_VersionHistories_def valid_VersionHistory_def allocated_def item_values_def
      valid_item_def strictly_increasing_def item_less_def first_version_def
      SetCurrentVersionHistoryIndex_def
      NewVersionHistoriesFromThrift_def ToThrift_VersionHistories_def ToThrift_VersionHistory_def
      ToThrift_def thrift_GetCurrentVersionHistoryIndex_def NewVersionHistoryFromThrift_def
      NewVersionHistoryItemFromThrift_def NewVersionHistoryItem_def thrift_GetEventID_def
      thrift_GetVersion_def NewVersionHistory_def Duplicate_def AddOrUpdateItem_def
      NewVersionHistories_def AddVersionHistory_def GetFirstItem_def GetLastItem_def
      GetVersionHistory_def Duplicate_VersionHistory_def Let_def)

theorem thrift_round_trip_witness:
  "valid_VersionHistory (- 24)
     [\<lparr>eventID = 3, version = 0\<rparr>, \<lparr>eventID = 3, version = 0\<rparr>, \<lparr>eventID = 5, version = 1\<rparr>]
     \<lparr>branchToken = [2], items = [1, 2]\<rparr>
   \<and> valid_VersionHistories (- 24)
     [\<lparr>eventID = 3, version = 0\<rparr>, \<lparr>eventID = 3, version = 0\<rparr>, \<lparr>eventID = 5, version = 1\<rparr>]
     \<lparr>currentVersionHistoryIndex = 1,
      histories = [\<lparr>branchToken = [1], items = [0]\<rparr>, \<lparr>branchToken = [2], items = [1, 2]\<rparr>]\<rparr>
   \<and> first_highest [0, 1] 1
   \<and> (\<exists>s' v'. NewVersionHistoryFromThrift (- 24)
          [\<lparr>eventID = 3, version = 0\<rparr>, \<lparr>eventID = 3, version = 0\<rparr>, \<lparr>eventID = 5, version = 1\<rparr>]
          (Some (ToThrift_VersionHistory
             [\<lparr>eventID = 3, version = 0\<rparr>, \<lparr>eventID = 3, version = 0\<rparr>, \<lparr>eventID = 5, version = 1\<rparr>]
             \<lparr>branchToken = [2], items = [1, 2]\<rparr>)) = Inr (s', v')
        \<and> Equals_VersionHistory s' \<lparr>branchToken = [2], items = [1, 2]\<rparr> v')
   \<and> (\<exists>s' h'. NewVersionHistoriesFromThrift (- 24)
          [\<lparr>eventID = 3, version = 0\<rparr>, \<lparr>eventID = 3, version = 0\<rparr>, \<lparr>eventID = 5, version = 1\<rparr>]
          (Some (ToThrift_VersionHistories
             [\<lparr>eventID = 3, version = 0\<rparr>, \<lparr>eventID = 3, version = 0\<rparr>, \<lparr>eventID = 5, version = 1\<rparr>]
             \<lparr>currentVersionHistoryIndex = 1,
              histories = [\<lparr>branchToken = [1], items = [0]\<rparr>,
                           \<lparr>branchToken = [2], items = [1, 2]\<rparr>]\<rparr>)) = Inr (s', h')
        \<and> currentVersionHistoryIndex h' = 1)"
proof -
  let ?s = "[\<lparr>eventID = 3, version = 0\<rparr>, \<lparr>eventID = 3, version = 0\<rparr>, \<lparr>eventID = 5, version = 1\<rparr>]"
  let ?v = "\<lparr>branchToken = [2], items = [1, 2]\<rparr>"
  let ?h = "\<lparr>currentVersionHistoryIndex = 1,
      histories = [\<lparr>branchToken = [1], items = [0]\<rparr>, \<lparr>branchToken = [2], items = [1, 2]\<rparr>]\<rparr>"
  have v: "valid_VersionHistory (- 24) ?s ?v"
    by (simp add: valid_VersionHistory_def allocated_def item_values_def valid_item_def
        strictly_increasing_def item_less_def)
  have h: "valid_VersionHistories (- 24) ?s ?h"
    by (simp add: valid_VersionHistories_def valid_VersionHistory_def allocated_def
        item_values_def valid_item_def strictly_increasing_def item_less_def first_version_def)
  have len: "length (histories ?h) \<le> 2 ^ 31" by simp
  have fh: "first_highest [0, 1] 1" by (simp add: first_highest_def)
  then have fh': "first_highest (map (last_version ?s) (histories ?h))
      (nat (currentVersionHistoryIndex ?h))"
    by (simp add: last_version_def)
  note rt = thrift_round_trip [of "- 24" ?s ?v ?h]
  from rt [THEN conjunct1, THEN mp, OF v] obtain s1 v1 where
    a: "NewVersionHistoryFromThrift (- 24) ?s (Some (ToThrift_VersionHistory ?s ?v)) = Inr (s1, v1)"
      "Equals_VersionHistory s1 ?v v1"
    by blast
  from rt [THEN conjunct2, THEN mp, OF conjI [OF h len], THEN conjunct1, THEN mp, OF fh']
  obtain s2 h2 where
    b: "NewVersionHistoriesFromThrift (- 24) ?s (Some (ToThrift_VersionHistories ?s ?h)) = Inr (s2, h2)"
      "currentVersionHistoryIndex h2 = currentVersionHistoryIndex ?h"
    by blast
  from b(2) have "currentVersionHistoryIndex h2 = 1" by simp
  with v h fh a b(1) show ?thesis by blast
qed

lemma AddVersionHistory_null:
  "AddVersionHistory ev s h None = (s, h, Inl (BadRequestError (Text ''version histories is null.'')))"
  by (simp add: AddVersionHistory_def)

lemma AddVersionHistory_empty:
  "items v = [] \<Longrightarrow>
   AddVersionHistory ev s h (Some v) = (s, h, Inl (BadRequestError (Text ''version history is empty.'')))"
  by (simp add: AddVersionHistory_def GetFirstItem_def)

lemma AddVersionHistory_mismatch:
  assumes h: "valid_VersionHistories ev s h"
    and v: "valid_VersionHistory ev s v" and ne: "items v \<noteq> []"
    and fv: "first_version s v \<noteq> first_version s (histories h ! nat (currentVersionHistoryIndex h))"
  shows "\<exists>ext. AddVersionHistory ev s h (Some v) =
      (s @ ext, h, Inl (BadRequestError (Text ''version history first item does not match.'')))"
proof -
  let ?c = "histories h ! nat (currentVersionHistoryIndex h)"
  from h have idx: "0 \<le> currentVersionHistoryIndex h"
    "currentVersionHistoryIndex h < int (length (histories h))"
    by (simp_all add: valid_VersionHistories_def)
  then have cin: "?c \<in> set (histories h)" by simp
  from valid_VersionHistories_member [OF h cin]
  have c: "valid_VersionHistory ev s ?c" and cne: "items ?c \<noteq> []" by simp_all
  have get: "GetVersionHistory h (currentVersionHistoryIndex h) = Inr ?c"
    using idx by (simp add: GetVersionHistory_def)
  let ?a = "s ! hd (items v)"
  let ?s1 = "s @ [?a]"
  have f1: "GetFirstItem ev s v = Inr (?s1, length s)"
    using ne valid_VersionHistory_hd [OF v ne] by (simp add: GetFirstItem_valid)
  let ?b = "s ! hd (items ?c)"
  let ?s2 = "s @ [?a, ?b]"
  from valid_VersionHistory_hd [OF c cne] have hc: "valid_item ev ?b" "hd (items ?c) < length s"
    by simp_all
  then have "GetFirstItem ev ?s1 ?c = Inr (?s1 @ [?s1 ! hd (items ?c)], length ?s1)"
    using cne by (intro GetFirstItem_valid) (simp_all add: nth_append)
  with hc have f2: "GetFirstItem ev ?s1 ?c = Inr (?s2, Suc (length s))"
    by (simp add: nth_append)
  have cmp: "version (?s2 ! length s) \<noteq> version (?s2 ! Suc (length s))"
    using fv by (simp add: first_version_def nth_append)
  have "AddVersionHistory ev s h (Some v) =
      (?s2, h, Inl (BadRequestError (Text ''version history first item does not match.'')))"
    unfolding AddVersionHistory_def
    using cmp by (simp only: option.case sum.case prod.case f1 get f2) simp
  then show ?thesis by blast
qed

text \<open>
  \<open>AddVersionHistory\<close> compares the versions of the two first items only. With the
  current history \<open>[(5,0)]\<close> and \<open>v = [(3,0)]\<close> the first items are not equal, and
  the call succeeds.
\<close>

theorem AddVersionHistory_first_item_counterexample:
  "valid_VersionHistories (- 24) [\<lparr>eventID = 5, version = 0\<rparr>, \<lparr>eventID = 3, version = 0\<rparr>]
     \<lparr>currentVersionHistoryIndex = 0, histories = [\<lparr>branchToken = [1], items = [0]\<rparr>]\<rparr>
   \<and> valid_VersionHistory (- 24) [\<lparr>eventID = 5, version = 0\<rparr>, \<lparr>eventID = 3, version = 0\<rparr>]
     \<lparr>branchToken = [2], items = [1]\<rparr>
   \<and> \<not> Equals [\<lparr>eventID = 5, version = 0\<rparr>, \<lparr>eventID = 3, version = 0\<rparr>] 1 0
   \<and> AddVersionHistory (- 24) [\<lparr>eventID = 5, version = 0\<rparr>, \<lparr>eventID = 3, version = 0\<rparr>]
     \<lparr>currentVersionHistoryIndex = 0, histories = [\<lparr>branchToken = [1], items = [0]\<rparr>]\<rparr>
     (Some \<lparr>branchToken = [2], items = [1]\<rparr>)
     = ([\<lparr>eventID = 5, version = 0\<rparr>, \<lparr>eventID = 3, version = 0\<rparr>,
         \<lparr>eventID = 3, version = 0\<rparr>, \<lparr>eventID = 5, version = 0\<rparr>,
         \<lparr>eventID = 3, version = 0\<rparr>, \<lparr>eventID = 3, version = 0\<rparr>,
         \<lparr>eventID = 3, version = 0\<rparr>, \<lparr>eventID = 5, version = 0\<rparr>],
        \<lparr>currentVersionHistoryIndex = 0,
         histories = [\<lparr>branchToken = [1], items = [0]\<rparr>, \<lparr>branchToken = [2], items = [5]\<rparr>]\<rparr>,
        Inr (False, 1))"
  by (simp add: valid_VersionHistories_def valid_VersionHistory_def allocated_def item_values_def
      valid_item_def strictly_increasing_def item_less_def first_version_def Equals_def
      NewVersionHistoryItem_def NewVersionHistory_def Duplicate_def AddOrUpdateItem_def
      AddVersionHistory_def GetFirstItem_def GetLastItem_def
      GetVersionHistory_def Duplicate_VersionHistory_def Let_def)

text \<open>
  C6. \<open>AddVersionHistory\<close> on valid histories, \<open>v\<close> being valid when it is given.
  It fails with a \<open>BadRequestError\<close>, leaving the histories as they were, when \<open>v\<close> is
  \<open>nil\<close>, when \<open>v\<close> is empty, and when the version of the first item of \<open>v\<close>
  differs from the version of the first item of the current history. Otherwise it succeeds:
  a copy of \<open>v\<close> (same token, same item values, all items freshly allocated) is appended
  at the new index, the last index of the extended histories; the call reports
  \<open>currentBranchChanged = true\<close> and sets the current index to the new index exactly
  when the last-item version of \<open>v\<close> is above that of the current history; the index
  is otherwise kept, the histories stored before are kept, and no item allocated before is
  changed.
\<close>

theorem AddVersionHistory_cases:
  assumes h: "valid_VersionHistories ev s h" and v: "valid_VersionHistory ev s v"
  shows "AddVersionHistory ev s h None =
           (s, h, Inl (BadRequestError (Text ''version histories is null.'')))
       \<and> (items v = [] \<longrightarrow>
            AddVersionHistory ev s h (Some v) =
              (s, h, Inl (BadRequestError (Text ''version history is empty.''))))
       \<and> (items v \<noteq> []
            \<and> first_version s v \<noteq> first_version s (histories h ! nat (currentVersionHistoryIndex h)) \<longrightarrow>
            (\<exists>s'. AddVersionHistory ev s h (Some v) =
               (s', h, Inl (BadRequestError (Text ''version history first item does not match.'')))
               \<and> take (length s) s' = s))
       \<and> (items v \<noteq> []
            \<and> first_version s v = first_version s (histories h ! nat (currentVersionHistoryIndex h)) \<longrightarrow>
            (\<exists>s' nv. AddVersionHistory ev s h (Some v) =
               (s',
                \<lparr>currentVersionHistoryIndex =
                   (if last_version s v > last_version s (histories h ! nat (currentVersionHistoryIndex h))
                    then int (length (histories h)) else currentVersionHistoryIndex h),
                 histories = histories h @ [nv]\<rparr>,
                Inr (last_version s v > last_version s (histories h ! nat (currentVersionHistoryIndex h)),
                     int (length (histories h) + 1) - 1))
               \<and> take (length s) s' = s
               \<and> branchToken nv = branchToken v
               \<and> item_values s' nv = item_values s v
               \<and> fresh_items (length s) s' nv
               \<and> distinct (items nv)))"
proof -
  have ok: "\<exists>s' nv. AddVersionHistory ev s h (Some v) =
               (s',
                \<lparr>currentVersionHistoryIndex =
                   (if last_version s v > last_version s (histories h ! nat (currentVersionHistoryIndex h))
                    then int (length (histories h)) else currentVersionHistoryIndex h),
                 histories = histories h @ [nv]\<rparr>,
                Inr (last_version s v > last_version s (histories h ! nat (currentVersionHistoryIndex h)),
                     int (length (histories h) + 1) - 1))
               \<and> take (length s) s' = s
               \<and> branchToken nv = branchToken v
               \<and> item_values s' nv = item_values s v
               \<and> fresh_items (length s) s' nv
               \<and> distinct (items nv)"
    if ne: "items v \<noteq> []"
      and fv: "first_version s v = first_version s (histories h ! nat (currentVersionHistoryIndex h))"
  proof -
    from AddVersionHistory_success [OF h v ne fv] obtain ext new where
      r: "AddVersionHistory ev s h (Some v) =
      (s @ ext,
       \<lparr>currentVersionHistoryIndex =
          (if last_version s v > last_version s (histories h ! nat (currentVersionHistoryIndex h))
           then int (length (histories h)) else currentVersionHistoryIndex h),
        histories = histories h @ [\<lparr>branchToken = branchToken v, items = new\<rparr>]\<rparr>,
       Inr (last_version s v > last_version s (histories h ! nat (currentVersionHistoryIndex h)),
            int (length (histories h))))"
      and n1: "list_all (\<lambda>p. length s \<le> p \<and> p < length (s @ ext)) new"
      and n2: "distinct new"
      and n3: "map (\<lambda>p. (s @ ext) ! p) new = item_values s v"
      by blast
    show ?thesis
      by (rule exI [of _ "s @ ext"], rule exI [of _ "\<lparr>branchToken = branchToken v, items = new\<rparr>"])
        (use r n1 n2 n3 in \<open>simp add: fresh_items_def item_values_def\<close>)
  qed
  have bad: "\<exists>s'. AddVersionHistory ev s h (Some v) =
               (s', h, Inl (BadRequestError (Text ''version history first item does not match.'')))
               \<and> take (length s) s' = s"
    if ne: "items v \<noteq> []"
      and fv: "first_version s v \<noteq> first_version s (histories h ! nat (currentVersionHistoryIndex h))"
    using AddVersionHistory_mismatch [OF h v ne fv] by auto
  from ok bad show ?thesis
    using AddVersionHistory_null [of ev s h] AddVersionHistory_empty [of v ev s h] by blast
qed

theorem AddVersionHistory_cases_witness:
  "valid_VersionHistories (- 24)
     [\<lparr>eventID = 5, version = 0\<rparr>, \<lparr>eventID = 3, version = 0\<rparr>, \<lparr>eventID = 6, version = 1\<rparr>]
     \<lparr>currentVersionHistoryIndex = 0, histories = [\<lparr>branchToken = [1], items = [0]\<rparr>]\<rparr>
   \<and> valid_VersionHistory (- 24)
     [\<lparr>eventID = 5, version = 0\<rparr>, \<lparr>eventID = 3, version = 0\<rparr>, \<lparr>eventID = 6, version = 1\<rparr>]
     \<lparr>branchToken = [2], items = [1, 2]\<rparr>
   \<and> (\<exists>s' nv. AddVersionHistory (- 24)
          [\<lparr>eventID = 5, version = 0\<rparr>, \<lparr>eventID = 3, version = 0\<rparr>, \<lparr>eventID = 6, version = 1\<rparr>]
          \<lparr>currentVersionHistoryIndex = 0, histories = [\<lparr>branchToken = [1], items = [0]\<rparr>]\<rparr>
          (Some \<lparr>branchToken = [2], items = [1, 2]\<rparr>)
        = (s', \<lparr>currentVersionHistoryIndex = 1,
                histories = [\<lparr>branchToken = [1], items = [0]\<rparr>, nv]\<rparr>, Inr (True, 1))
        \<and> branchToken nv = [2]
        \<and> item_values s' nv = [\<lparr>eventID = 3, version = 0\<rparr>, \<lparr>eventID = 6, version = 1\<rparr>])"
proof -
  let ?s = "[\<lparr>eventID = 5, version = 0\<rparr>, \<lparr>eventID = 3, version = 0\<rparr>, \<lparr>eventID = 6, version = 1\<rparr>]"
  let ?h = "\<lparr>currentVersionHistoryIndex = 0, histories = [\<lparr>branchToken = [1], items = [0]\<rparr>]\<rparr>"
  let ?v = "\<lparr>branchToken = [2], items = [1, 2]\<rparr>"
  have h: "valid_VersionHistories (- 24) ?s ?h"
    by (simp add: valid_VersionHistories_def valid_VersionHistory_def allocated_def
        item_values_def valid_item_def strictly_increasing_def item_less_def first_version_def)
  have v: "valid_VersionHistory (- 24) ?s ?v"
    by (simp add: valid_VersionHistory_def allocated_def item_values_def valid_item_def
        strictly_increasing_def item_less_def)
  have c: "items ?v \<noteq> [] \<and> first_version ?s ?v =
      first_version ?s (histories ?h ! nat (currentVersionHistoryIndex ?h))"
    by (simp add: first_version_def)
  from AddVersionHistory_cases [OF h v] c
  have "\<exists>s' nv. AddVersionHistory (- 24) ?s ?h (Some ?v) =
               (s',
                \<lparr>currentVersionHistoryIndex =
                   (if last_version ?s ?v > last_version ?s (histories ?h ! nat (currentVersionHistoryIndex ?h))
                    then int (length (histories ?h)) else currentVersionHistoryIndex ?h),
                 histories = histories ?h @ [nv]\<rparr>,
                Inr (last_version ?s ?v > last_version ?s (histories ?h ! nat (currentVersionHistoryIndex ?h)),
                     int (length (histories ?h) + 1) - 1))
               \<and> take (length ?s) s' = ?s
               \<and> branchToken nv = branchToken ?v
               \<and> item_values s' nv = item_values ?s ?v
               \<and> fresh_items (length ?s) s' nv
               \<and> distinct (items nv)"
    by blast
  then obtain s' nv where
    "AddVersionHistory (- 24) ?s ?h (Some ?v) =
        (s', \<lparr>currentVersionHistoryIndex = 1,
                histories = [\<lparr>branchToken = [1], items = [0]\<rparr>, nv]\<rparr>, Inr (True, 1))"
    "branchToken nv = [2]"
    "item_values s' nv = [\<lparr>eventID = 3, version = 0\<rparr>, \<lparr>eventID = 6, version = 1\<rparr>]"
    by (auto simp add: last_version_def item_values_def)
  with h v show ?thesis by blast
qed

section \<open>Properties of the message queue\<close>

lemma EnqueueMessage_error_Internal:
  "EnqueueMessage db queueType st payload = (Some e, st') \<Longrightarrow> \<exists>m. e = InternalServiceError m"
  by (auto simp add: EnqueueMessage_def split: prod.splits option.splits)

lemma DeleteMessagesBefore_error_Internal:
  "DeleteMessagesBefore db queueType st messageID = (Some e, st') \<Longrightarrow>
   \<exists>m. e = InternalServiceError m"
  by (auto simp add: DeleteMessagesBefore_def split: prod.splits option.splits)

lemma UpdateAckLevel_error_Internal:
  "UpdateAckLevel db queueType st messageID clusterName = (Some e, st') \<Longrightarrow>
   \<exists>m. e = InternalServiceError m"
  by (auto simp add: UpdateAckLevel_def split: prod.splits option.splits)

lemma ReadMessages_error_raw:
  "db_GetMessagesFromQueue db st queueType lastMessageID maxCount = Inl e \<Longrightarrow>
   ReadMessages db queueType st lastMessageID maxCount = Inl e"
  by (simp add: ReadMessages_def)

lemma GetAckLevels_error_raw:
  "db_GetAckLevels db st queueType False = Inl e \<Longrightarrow> GetAckLevels db queueType st = Inl e"
  by (simp add: GetAckLevels_def)

text \<open>
  C9. Every storage error inside a queue operation is to reach the caller as an
  \<open>InternalServiceError\<close>. \<open>EnqueueMessage\<close>, \<open>DeleteMessagesBefore\<close> and
  \<open>UpdateAckLevel\<close> do wrap it (the three lemmas above, for any storage layer).
  \<open>ReadMessages\<close> and \<open>GetAckLevels\<close> return the error of the storage layer as it
  is: when the storage call fails with the driver error "connection refused", that error is
  what the caller gets.
\<close>

theorem ReadMessages_GetAckLevels_raw_error:
  "ReadMessages
     (spec_db (\<lambda>call. if call = ''GetMessagesFromQueue''
                       then Some (DriverError ''connection refused'') else None))
     0 \<lparr>queue_rows = [], queue_ack_levels = Map.empty\<rparr> (- 1) 10
     = Inl (DriverError ''connection refused'')
   \<and> GetAckLevels
     (spec_db (\<lambda>call. if call = ''GetAckLevels''
                       then Some (DriverError ''connection refused'') else None))
     0 \<lparr>queue_rows = [], queue_ack_levels = Map.empty\<rparr>
     = Inl (DriverError ''connection refused'')"
  by (simp add: ReadMessages_def GetAckLevels_def spec_db_def)

lemma UpdateAckLevel_spec_db_success:
  assumes "UpdateAckLevel (spec_db fault) queueType st messageID clusterName = (None, st')"
  shows "(case queue_ack_levels st queueType of
            None \<Rightarrow> st' = st\<lparr>queue_ack_levels :=
                       (queue_ack_levels st)(queueType \<mapsto> [clusterName \<mapsto> messageID])\<rparr>
          | Some clusterAckLevels \<Rightarrow>
              if map_index clusterAckLevels clusterName > messageID then st' = st
              else st' = st\<lparr>queue_ack_levels :=
                       (queue_ack_levels st)(queueType \<mapsto> clusterAckLevels(clusterName \<mapsto> messageID))\<rparr>)"
  using assms
  by (auto simp add: UpdateAckLevel_def spec_db_def split: option.splits if_splits prod.splits sum.splits)

lemma ack_levels_le_refl: "ack_levels_le q st st"
  by (simp add: ack_levels_le_def)

lemma ack_levels_le_trans: "ack_levels_le q a b \<Longrightarrow> ack_levels_le q b c \<Longrightarrow> ack_levels_le q a c"
  unfolding ack_levels_le_def by (meson order_trans)

lemma UpdateAckLevel_monotone:
  assumes "UpdateAckLevel (spec_db fault) queueType st messageID clusterName = (None, st')"
  shows "ack_levels_le queueType st st'"
proof (cases "queue_ack_levels st queueType")
  case None
  then show ?thesis by (simp add: ack_levels_le_def ack_level_def)
next
  case (Some m)
  show ?thesis
  proof (cases "map_index m clusterName > messageID")
    case True
    with UpdateAckLevel_spec_db_success [OF assms] Some show ?thesis
      by (simp add: ack_levels_le_refl)
  next
    case False
    with UpdateAckLevel_spec_db_success [OF assms] Some
    have "st' = st\<lparr>queue_ack_levels := (queue_ack_levels st)(queueType \<mapsto> m(clusterName \<mapsto> messageID))\<rparr>"
      by simp
    with Some False show ?thesis
      by (auto simp add: ack_levels_le_def ack_level_def map_index_def split: option.splits)
  qed
qed

lemma UpdateAckLevel_calls_monotone:
  "UpdateAckLevel_calls queueType st calls = Some st' \<Longrightarrow> ack_levels_le queueType st st'"
proof (induction calls arbitrary: st)
  case Nil
  then show ?case by (simp add: ack_levels_le_refl)
next
  case (Cons c calls)
  obtain fault messageID clusterName where c: "c = (fault, messageID, clusterName)"
    by (cases c) auto
  from Cons.prems c obtain st1 where
    one: "UpdateAckLevel (spec_db fault) queueType st messageID clusterName = (None, st1)"
    and rest: "UpdateAckLevel_calls queueType st1 calls = Some st'"
    by (auto split: prod.splits option.splits)
  from UpdateAckLevel_monotone [OF one] Cons.IH [OF rest] show ?case
    by (rule ack_levels_le_trans)
qed

text \<open>
  A call for a cluster that has no entry in an existing ack-level map is ignored when its
  message ID is negative: Go reads the missing entry as 0. With the map \<open>{a: 5}\<close>,
  \<open>UpdateAckLevel(-1, b)\<close> returns success, writes nothing, and \<open>b\<close> still has no
  entry.
\<close>

theorem UpdateAckLevel_missing_cluster_counterexample:
  "UpdateAckLevel (spec_db (\<lambda>call. None)) 0
     \<lparr>queue_rows = [], queue_ack_levels = [0 \<mapsto> [''a'' \<mapsto> 5]]\<rparr> (- 1) ''b''
     = (None, \<lparr>queue_rows = [], queue_ack_levels = [0 \<mapsto> [''a'' \<mapsto> 5]]\<rparr>)
   \<and> ack_level \<lparr>queue_rows = [], queue_ack_levels = [0 \<mapsto> [''a'' \<mapsto> 5]]\<rparr> 0 ''b'' = None"
  by (simp add: UpdateAckLevel_def spec_db_def map_index_def ack_level_def)

text \<open>
  C7. On the storage layer of the spec, every run of successful \<open>UpdateAckLevel\<close> calls
  on one queue leaves the ack level of each cluster at or above what it was. A successful
  call on an absent ack-level map inserts the map \<open>{clusterName: messageID}\<close>; a call
  whose message ID is below the cluster's level in the map, a cluster without an entry
  counting as level 0, writes nothing; any other call sets the cluster's entry to the
  message ID and leaves the other entries as they were.
\<close>

theorem UpdateAckLevel_monotone_cases:
  "(\<forall>st'. UpdateAckLevel_calls queueType st calls = Some st' \<longrightarrow> ack_levels_le queueType st st')
 \<and> (\<forall>st'. UpdateAckLevel (spec_db fault) queueType st messageID clusterName = (None, st') \<longrightarrow>
       (case queue_ack_levels st queueType of
          None \<Rightarrow> st' = st\<lparr>queue_ack_levels :=
                     (queue_ack_levels st)(queueType \<mapsto> [clusterName \<mapsto> messageID])\<rparr>
        | Some clusterAckLevels \<Rightarrow>
            if map_index clusterAckLevels clusterName > messageID then st' = st
            else st' = st\<lparr>queue_ack_levels :=
                     (queue_ack_levels st)(queueType \<mapsto> clusterAckLevels(clusterName \<mapsto> messageID))\<rparr>))"
  using UpdateAckLevel_calls_monotone UpdateAckLevel_spec_db_success by blast

theorem UpdateAckLevel_monotone_cases_witness:
  "UpdateAckLevel_calls 0 \<lparr>queue_rows = [], queue_ack_levels = [0 \<mapsto> [''a'' \<mapsto> 5]]\<rparr>
     [(\<lambda>call. None, 3, ''a''), (\<lambda>call. None, 7, ''a'')]
     = Some \<lparr>queue_rows = [], queue_ack_levels = [0 \<mapsto> [''a'' \<mapsto> 7]]\<rparr>
   \<and> ack_levels_le 0 \<lparr>queue_rows = [], queue_ack_levels = [0 \<mapsto> [''a'' \<mapsto> 5]]\<rparr>
        \<lparr>queue_rows = [], queue_ack_levels = [0 \<mapsto> [''a'' \<mapsto> 7]]\<rparr>
   \<and> ack_level \<lparr>queue_rows = [], queue_ack_levels = [0 \<mapsto> [''a'' \<mapsto> 5]]\<rparr> 0 ''a'' = Some 5
   \<and> UpdateAckLevel (spec_db (\<lambda>call. None)) 0
        \<lparr>queue_rows = [], queue_ack_levels = [0 \<mapsto> [''a'' \<mapsto> 5]]\<rparr> 7 ''a''
      = (None, \<lparr>queue_rows = [], queue_ack_levels = [0 \<mapsto> [''a'' \<mapsto> 7]]\<rparr>)"
proof -
  let ?st = "\<lparr>queue_rows = [], queue_ack_levels = [0 \<mapsto> [''a'' \<mapsto> 5]]\<rparr>"
  let ?st' = "\<lparr>queue_rows = [], queue_ack_levels = [0 \<mapsto> [''a'' \<mapsto> 7]]\<rparr>"
  have one: "UpdateAckLevel (spec_db (\<lambda>call. None)) 0 ?st 7 ''a'' = (None, ?st')"
    by (simp add: UpdateAckLevel_def spec_db_def map_index_def)
  have run: "UpdateAckLevel_calls 0 ?st [(\<lambda>call. None, 3, ''a''), (\<lambda>call. None, 7, ''a'')] = Some ?st'"
    by (simp add: UpdateAckLevel_def spec_db_def map_index_def)
  have lv: "ack_level ?st 0 ''a'' = Some 5" by (simp add: ack_level_def)
  from UpdateAckLevel_monotone_cases [of 0 ?st "[(\<lambda>call. None, 3, ''a''), (\<lambda>call. None, 7, ''a'')]"
      "\<lambda>call. None" 7 "''a''"] one run lv
  show ?thesis by blast
qed

section \<open>Properties of the workflow resetter\<close>

subsection \<open>failInflightActivity\<close>


lemma failInflightActivity_loop_trace:
  assumes ET: "E \<noteq> T"
  shows "\<exists>k mss. k \<le> length ais \<and> length mss = Suc k \<and> mss ! 0 = ms
    \<and> (\<forall>i<k. StartedID (ais ! i) \<noteq> T
            \<and> activity_handled r E reason (ais ! i) (mss ! i) (mss ! Suc i))
    \<and> (k = length ais \<longrightarrow>
          failInflightActivity_loop r E T reason ms calls ais =
            (None, mss ! k,
             calls @ map (activity_call reason) (filter (\<lambda>ai. StartedID ai \<noteq> E) ais)))
    \<and> (k < length ais \<longrightarrow>
          (StartedID (ais ! k) = T
           \<and> failInflightActivity_loop r E T reason ms calls ais =
               (Some (InternalServiceError (Text ''workflowResetter encounter transient activity'')),
                mss ! k,
                calls @ map (activity_call reason)
                  (filter (\<lambda>ai. StartedID ai \<noteq> E) (take k ais))))
        \<or> (StartedID (ais ! k) \<noteq> E \<and> StartedID (ais ! k) \<noteq> T
           \<and> (\<exists>e ms'. fail_activity r reason (mss ! k) (ais ! k) = (Some e, ms')
                \<and> failInflightActivity_loop r E T reason ms calls ais =
                    (Some e, ms',
                     calls @ map (activity_call reason)
                       (filter (\<lambda>ai. StartedID ai \<noteq> E) (take (Suc k) ais))))))"
  (is "\<exists>k mss. ?P ais ms calls k mss")
proof (induction ais arbitrary: ms calls)
  case Nil
  have "?P [] ms calls 0 [ms]" by simp
  then show ?case by blast
next
  case (Cons ai ais)
  consider (empty) "StartedID ai = E" | (transient) "StartedID ai \<noteq> E" "StartedID ai = T"
    | (started) "StartedID ai \<noteq> E" "StartedID ai \<noteq> T"
    by blast
  then show ?case
  proof cases
    case empty
    from Cons.IH [of ms calls] obtain k mss where IH: "?P ais ms calls k mss" by blast
    from empty ET have nT: "StartedID ai \<noteq> T" by simp
    have "?P (ai # ais) ms calls (Suc k) (ms # mss)"
      using IH empty nT by (simp add: All_less_Suc2 activity_handled_def)
    then show ?thesis by blast
  next
    case transient
    have "?P (ai # ais) ms calls 0 [ms]" using transient by simp
    then show ?thesis by blast
  next
    case started
    obtain e1 ms1 where add: "fail_activity r reason ms ai = (e1, ms1)"
      by (cases "fail_activity r reason ms ai")
    show ?thesis
    proof (cases e1)
      case (Some e)
      have "?P (ai # ais) ms calls 0 [ms]"
        using started add Some
        by (simp add: record_call_def fail_activity_def activity_call_def)
      then show ?thesis by blast
    next
      case None
      from Cons.IH [of ms1 "calls @ [activity_call reason ai]"] obtain k mss where
        IH: "?P ais ms1 (calls @ [activity_call reason ai]) k mss" by blast
      have step: "failInflightActivity_loop r E T reason ms calls (ai # ais) =
          failInflightActivity_loop r E T reason ms1 (calls @ [activity_call reason ai]) ais"
        using started add None
        by (simp add: record_call_def fail_activity_def activity_call_def)
      have "?P (ai # ais) ms calls (Suc k) (ms # mss)"
        using IH started add None unfolding step
        by (simp add: All_less_Suc2 activity_handled_def del: failInflightActivity_loop.simps)
      then show ?thesis by blast
    qed
  qed
qed


text \<open>
  C8. \<open>failInflightActivity\<close> visits the pending activities in some order \<open>ais\<close>. It
  handles the first \<open>k\<close> of them without an error, through the states \<open>mss\<close>: none of
  them is transient; one whose \<open>StartedID\<close> is \<open>EmptyEventID\<close> is skipped, the state
  stays as it is and no event is appended; for every other one the call that appends an
  \<open>ActivityTaskFailed\<close> event, with the terminate reason and the details and identity of
  the activity info, is made and succeeds. Then either all activities were visited and the
  step returns no error; or the next activity has \<open>StartedID = TransientEventID\<close> and the
  step stops with the \<open>InternalServiceError\<close> "workflowResetter encounter transient
  activity", whatever the mutable state is; or the call for the next activity fails and the
  step stops with the error of that call. The calls made are those of the activities
  handled, in order.
\<close>

theorem failInflightActivity_each_activity:
  assumes "EmptyEventID \<noteq> TransientEventID" and "ms_GetPendingActivityInfos r ms = ais"
  shows "\<exists>k mss. k \<le> length ais \<and> length mss = Suc k \<and> mss ! 0 = ms
    \<and> (\<forall>i<k. StartedID (ais ! i) \<noteq> TransientEventID
            \<and> activity_handled r EmptyEventID reason (ais ! i) (mss ! i) (mss ! Suc i))
    \<and> (k = length ais \<longrightarrow>
          failInflightActivity r EmptyEventID TransientEventID ms calls reason =
            (None, mss ! k,
             calls @ map (activity_call reason) (filter (\<lambda>ai. StartedID ai \<noteq> EmptyEventID) ais)))
    \<and> (k < length ais \<longrightarrow>
          (StartedID (ais ! k) = TransientEventID
           \<and> failInflightActivity r EmptyEventID TransientEventID ms calls reason =
               (Some (InternalServiceError (Text ''workflowResetter encounter transient activity'')),
                mss ! k,
                calls @ map (activity_call reason)
                  (filter (\<lambda>ai. StartedID ai \<noteq> EmptyEventID) (take k ais))))
        \<or> (StartedID (ais ! k) \<noteq> EmptyEventID \<and> StartedID (ais ! k) \<noteq> TransientEventID
           \<and> (\<exists>e ms'. fail_activity r reason (mss ! k) (ais ! k) = (Some e, ms')
                \<and> failInflightActivity r EmptyEventID TransientEventID ms calls reason =
                    (Some e, ms',
                     calls @ map (activity_call reason)
                       (filter (\<lambda>ai. StartedID ai \<noteq> EmptyEventID) (take (Suc k) ais))))))"
  using failInflightActivity_loop_trace [OF assms(1), of ais ms r reason calls] assms(2)
  by (simp only: failInflightActivity_def)

theorem failInflightActivity_each_activity_witness:
  "(0 :: int64) \<noteq> - 23
   \<and> ms_GetPendingActivityInfos (example_collaborators example_rebuilt)
        (example_rebuilt\<lparr>ex_activities := [\<lparr>ScheduleID = 5, StartedID = 6, Details = [7], StartedIdentity = ''worker''\<rparr>,
          \<lparr>ScheduleID = 8, StartedID = 0, Details = [], StartedIdentity = ''''\<rparr>,
          \<lparr>ScheduleID = 9, StartedID = - 23, Details = [], StartedIdentity = ''poller''\<rparr>]\<rparr>) =
         [\<lparr>ScheduleID = 5, StartedID = 6, Details = [7], StartedIdentity = ''worker''\<rparr>,
          \<lparr>ScheduleID = 8, StartedID = 0, Details = [], StartedIdentity = ''''\<rparr>,
          \<lparr>ScheduleID = 9, StartedID = - 23, Details = [], StartedIdentity = ''poller''\<rparr>]
   \<and> failInflightActivity (example_collaborators example_rebuilt) 0 (- 23)
        (example_rebuilt\<lparr>ex_activities := [\<lparr>ScheduleID = 5, StartedID = 6, Details = [7], StartedIdentity = ''worker''\<rparr>,
          \<lparr>ScheduleID = 8, StartedID = 0, Details = [], StartedIdentity = ''''\<rparr>,
          \<lparr>ScheduleID = 9, StartedID = - 23, Details = [], StartedIdentity = ''poller''\<rparr>]\<rparr>) [] ''terminated'' =
      (Some (InternalServiceError (Text ''workflowResetter encounter transient activity'')),
       example_rebuilt\<lparr>ex_activities :=
           [\<lparr>ScheduleID = 8, StartedID = 0, Details = [], StartedIdentity = ''''\<rparr>,
            \<lparr>ScheduleID = 9, StartedID = - 23, Details = [], StartedIdentity = ''poller''\<rparr>],
         ex_nextEventID := 12\<rparr>,
       [Call_AddActivityTaskFailedEvent 5 6
          \<lparr>Reason = ''terminated'', request_Details = [7], Identity = ''worker''\<rparr>])
   \<and> (\<exists>k mss. k \<le> length 
         [\<lparr>ScheduleID = 5, StartedID = 6, Details = [7], StartedIdentity = ''worker''\<rparr>,
          \<lparr>ScheduleID = 8, StartedID = 0, Details = [], StartedIdentity = ''''\<rparr>,
          \<lparr>ScheduleID = 9, StartedID = - 23, Details = [], StartedIdentity = ''poller''\<rparr>] \<and> length mss = Suc k \<and> mss ! 0 = 
         (example_rebuilt\<lparr>ex_activities := [\<lparr>ScheduleID = 5, StartedID = 6, Details = [7], StartedIdentity = ''worker''\<rparr>,
          \<lparr>ScheduleID = 8, StartedID = 0, Details = [], StartedIdentity = ''''\<rparr>,
          \<lparr>ScheduleID = 9, StartedID = - 23, Details = [], StartedIdentity = ''poller''\<rparr>]\<rparr>)
    \<and> (\<forall>i<k. StartedID (
         [\<lparr>ScheduleID = 5, StartedID = 6, Details = [7], StartedIdentity = ''worker''\<rparr>,
          \<lparr>ScheduleID = 8, StartedID = 0, Details = [], StartedIdentity = ''''\<rparr>,
          \<lparr>ScheduleID = 9, StartedID = - 23, Details = [], StartedIdentity = ''poller''\<rparr>] ! i) \<noteq> (- 23)
            \<and> activity_handled (example_collaborators example_rebuilt) 0 ''terminated'' (
         [\<lparr>ScheduleID = 5, StartedID = 6, Details = [7], StartedIdentity = ''worker''\<rparr>,
          \<lparr>ScheduleID = 8, StartedID = 0, Details = [], StartedIdentity = ''''\<rparr>,
          \<lparr>ScheduleID = 9, StartedID = - 23, Details = [], StartedIdentity = ''poller''\<rparr>] ! i) (mss ! i) (mss ! Suc i))
    \<and> (k = length 
         [\<lparr>ScheduleID = 5, StartedID = 6, Details = [7], StartedIdentity = ''worker''\<rparr>,
          \<lparr>ScheduleID = 8, StartedID = 0, Details = [], StartedIdentity = ''''\<rparr>,
          \<lparr>ScheduleID = 9, StartedID = - 23, Details = [], StartedIdentity = ''poller''\<rparr>] \<longrightarrow>
          failInflightActivity (example_collaborators example_rebuilt) 0 (- 23) 
         (example_rebuilt\<lparr>ex_activities := [\<lparr>ScheduleID = 5, StartedID = 6, Details = [7], StartedIdentity = ''worker''\<rparr>,
          \<lparr>ScheduleID = 8, StartedID = 0, Details = [], StartedIdentity = ''''\<rparr>,
          \<lparr>ScheduleID = 9, StartedID = - 23, Details = [], StartedIdentity = ''poller''\<rparr>]\<rparr>) [] ''terminated'' =
            (None, mss ! k,
             [] @ map (activity_call ''terminated'') (filter (\<lambda>ai. StartedID ai \<noteq> 0) 
         [\<lparr>ScheduleID = 5, StartedID = 6, Details = [7], StartedIdentity = ''worker''\<rparr>,
          \<lparr>ScheduleID = 8, StartedID = 0, Details = [], StartedIdentity = ''''\<rparr>,
          \<lparr>ScheduleID = 9, StartedID = - 23, Details = [], StartedIdentity = ''poller''\<rparr>])))
    \<and> (k < length 
         [\<lparr>ScheduleID = 5, StartedID = 6, Details = [7], StartedIdentity = ''worker''\<rparr>,
          \<lparr>ScheduleID = 8, StartedID = 0, Details = [], StartedIdentity = ''''\<rparr>,
          \<lparr>ScheduleID = 9, StartedID = - 23, Details = [], StartedIdentity = ''poller''\<rparr>] \<longrightarrow>
          (StartedID (
         [\<lparr>ScheduleID = 5, StartedID = 6, Details = [7], StartedIdentity = ''worker''\<rparr>,
          \<lparr>ScheduleID = 8, StartedID = 0, Details = [], StartedIdentity = ''''\<rparr>,
          \<lparr>ScheduleID = 9, StartedID = - 23, Details = [], StartedIdentity = ''poller''\<rparr>] ! k) = (- 23)
           \<and> failInflightActivity (example_collaborators example_rebuilt) 0 (- 23) 
         (example_rebuilt\<lparr>ex_activities := [\<lparr>ScheduleID = 5, StartedID = 6, Details = [7], StartedIdentity = ''worker''\<rparr>,
          \<lparr>ScheduleID = 8, StartedID = 0, Details = [], StartedIdentity = ''''\<rparr>,
          \<lparr>ScheduleID = 9, StartedID = - 23, Details = [], StartedIdentity = ''poller''\<rparr>]\<rparr>) [] ''terminated'' =
               (Some (InternalServiceError (Text ''workflowResetter encounter transient activity'')),
                mss ! k,
                [] @ map (activity_call ''terminated'')
                  (filter (\<lambda>ai. StartedID ai \<noteq> 0) (take k 
         [\<lparr>ScheduleID = 5, StartedID = 6, Details = [7], StartedIdentity = ''worker''\<rparr>,
          \<lparr>ScheduleID = 8, StartedID = 0, Details = [], StartedIdentity = ''''\<rparr>,
          \<lparr>ScheduleID = 9, StartedID = - 23, Details = [], StartedIdentity = ''poller''\<rparr>]))))
        \<or> (StartedID (
         [\<lparr>ScheduleID = 5, StartedID = 6, Details = [7], StartedIdentity = ''worker''\<rparr>,
          \<lparr>ScheduleID = 8, StartedID = 0, Details = [], StartedIdentity = ''''\<rparr>,
          \<lparr>ScheduleID = 9, StartedID = - 23, Details = [], StartedIdentity = ''poller''\<rparr>] ! k) \<noteq> 0 \<and> StartedID (
         [\<lparr>ScheduleID = 5, StartedID = 6, Details = [7], StartedIdentity = ''worker''\<rparr>,
          \<lparr>ScheduleID = 8, StartedID = 0, Details = [], StartedIdentity = ''''\<rparr>,
          \<lparr>ScheduleID = 9, StartedID = - 23, Details = [], StartedIdentity = ''poller''\<rparr>] ! k) \<noteq> (- 23)
           \<and> (\<exists>e ms'. fail_activity (example_collaborators example_rebuilt) ''terminated'' (mss ! k) (
         [\<lparr>ScheduleID = 5, StartedID = 6, Details = [7], StartedIdentity = ''worker''\<rparr>,
          \<lparr>ScheduleID = 8, StartedID = 0, Details = [], StartedIdentity = ''''\<rparr>,
          \<lparr>ScheduleID = 9, StartedID = - 23, Details = [], StartedIdentity = ''poller''\<rparr>] ! k) = (Some e, ms')
                \<and> failInflightActivity (example_collaborators example_rebuilt) 0 (- 23) 
         (example_rebuilt\<lparr>ex_activities := [\<lparr>ScheduleID = 5, StartedID = 6, Details = [7], StartedIdentity = ''worker''\<rparr>,
          \<lparr>ScheduleID = 8, StartedID = 0, Details = [], StartedIdentity = ''''\<rparr>,
          \<lparr>ScheduleID = 9, StartedID = - 23, Details = [], StartedIdentity = ''poller''\<rparr>]\<rparr>) [] ''terminated'' =
                    (Some e, ms',
                     [] @ map (activity_call ''terminated'')
                       (filter (\<lambda>ai. StartedID ai \<noteq> 0) (take (Suc k) 
         [\<lparr>ScheduleID = 5, StartedID = 6, Details = [7], StartedIdentity = ''worker''\<rparr>,
          \<lparr>ScheduleID = 8, StartedID = 0, Details = [], StartedIdentity = ''''\<rparr>,
          \<lparr>ScheduleID = 9, StartedID = - 23, Details = [], StartedIdentity = ''poller''\<rparr>])))))))"
proof -
  let ?r = "example_collaborators example_rebuilt"
  let ?ais = "[\<lparr>ScheduleID = 5, StartedID = 6, Details = [7], StartedIdentity = ''worker''\<rparr>,
          \<lparr>ScheduleID = 8, StartedID = 0, Details = [], StartedIdentity = ''''\<rparr>,
          \<lparr>ScheduleID = 9, StartedID = - 23, Details = [], StartedIdentity = ''poller''\<rparr>]"
  let ?ms = "example_rebuilt\<lparr>ex_activities := ?ais\<rparr>"
  have ne: "(0 :: int64) \<noteq> - 23" by simp
  have pend: "ms_GetPendingActivityInfos ?r ?ms = ?ais"
    by (simp add: example_collaborators_def)
  have run: "failInflightActivity ?r 0 (- 23) ?ms [] ''terminated'' =
      (Some (InternalServiceError (Text ''workflowResetter encounter transient activity'')),
       example_rebuilt\<lparr>ex_activities :=
           [\<lparr>ScheduleID = 8, StartedID = 0, Details = [], StartedIdentity = ''''\<rparr>,
            \<lparr>ScheduleID = 9, StartedID = - 23, Details = [], StartedIdentity = ''poller''\<rparr>],
         ex_nextEventID := 12\<rparr>,
       [Call_AddActivityTaskFailedEvent 5 6
          \<lparr>Reason = ''terminated'', request_Details = [7], Identity = ''worker''\<rparr>])"
    by (simp add: failInflightActivity_def example_collaborators_def example_rebuilt_def
        record_call_def)
  have trace: "\<exists>k mss. k \<le> length ?ais \<and> length mss = Suc k \<and> mss ! 0 = ?ms
    \<and> (\<forall>i<k. StartedID (?ais ! i) \<noteq> (- 23)
            \<and> activity_handled ?r 0 ''terminated'' (?ais ! i) (mss ! i) (mss ! Suc i))
    \<and> (k = length ?ais \<longrightarrow>
          failInflightActivity ?r 0 (- 23) ?ms [] ''terminated'' =
            (None, mss ! k,
             [] @ map (activity_call ''terminated'') (filter (\<lambda>ai. StartedID ai \<noteq> 0) ?ais)))
    \<and> (k < length ?ais \<longrightarrow>
          (StartedID (?ais ! k) = (- 23)
           \<and> failInflightActivity ?r 0 (- 23) ?ms [] ''terminated'' =
               (Some (InternalServiceError (Text ''workflowResetter encounter transient activity'')),
                mss ! k,
                [] @ map (activity_call ''terminated'')
                  (filter (\<lambda>ai. StartedID ai \<noteq> 0) (take k ?ais))))
        \<or> (StartedID (?ais ! k) \<noteq> 0 \<and> StartedID (?ais ! k) \<noteq> (- 23)
           \<and> (\<exists>e ms'. fail_activity ?r ''terminated'' (mss ! k) (?ais ! k) = (Some e, ms')
                \<and> failInflightActivity ?r 0 (- 23) ?ms [] ''terminated'' =
                    (Some e, ms',
                     [] @ map (activity_call ''terminated'')
                       (filter (\<lambda>ai. StartedID ai \<noteq> 0) (take (Suc k) ?ais))))))"
    using ne pend by (rule failInflightActivity_each_activity)
  from ne pend run trace show ?thesis by (intro conjI)
qed



subsection \<open>The decision gate\<close>





end
